theory Spec2Isabelle
  imports Complex_Main "HOL-Library.AList" "HOL-Library.Sublist" "HOL-Library.Log_Nat"
begin

section \<open>Strings\<close>

text \<open>
  Python strings are modelled as byte strings in UTF-8: \<open>string\<close> is a list of 8-bit
  characters, and a character outside ASCII (the euro sign of a price label) is the
  sequence of its bytes. The regular-expression class \<open>\d\<close>, the conversions
  \<open>float\<close> and \<open>int\<close> and the method \<open>lower\<close> are modelled on ASCII: the digits of
  other scripts, which Python's \<open>\d\<close> also matches, are outside the model.
\<close>

definition euro :: string where
  "euro = [CHR 0xE2, CHR 0x82, CHR 0xAC]"

definition is_digit :: "char \<Rightarrow> bool" where
  "is_digit c = (c \<in> set ''0123456789'')"

definition digit_val :: "char \<Rightarrow> nat" where
  "digit_val c = of_char c - 48"

definition digits_val :: "string \<Rightarrow> nat" where
  "digits_val s = foldl (\<lambda>a c. 10 * a + digit_val c) 0 s"

text \<open>\<open>s.rindex(c)\<close>: the index of the last occurrence; Python raises ValueError when
  there is none, here \<open>None\<close>.\<close>

fun rindex :: "string \<Rightarrow> char \<Rightarrow> nat option" where
  "rindex [] c = None"
| "rindex (x # xs) c =
     (case rindex xs c of
        Some i \<Rightarrow> Some (Suc i)
      | None \<Rightarrow> if x = c then Some 0 else None)"

text \<open>\<open>s.replace(c, "")\<close> and \<open>s.replace(c, d)\<close> for one-character patterns.\<close>

definition remove_char :: "char \<Rightarrow> string \<Rightarrow> string" where
  "remove_char c s = filter (\<lambda>x. x \<noteq> c) s"

definition replace_char :: "char \<Rightarrow> char \<Rightarrow> string \<Rightarrow> string" where
  "replace_char c d s = map (\<lambda>x. if x = c then d else x) s"

text \<open>\<open>s.split(sep)\<close> for a one-character separator: never the empty list.\<close>

fun str_split :: "char \<Rightarrow> string \<Rightarrow> string list" where
  "str_split sep [] = [[]]"
| "str_split sep (c # cs) =
     (if c = sep then [] # str_split sep cs
      else (let ps = str_split sep cs in (c # hd ps) # tl ps))"

section \<open>Binary64\<close>

text \<open>
  A Python \<open>float\<close> is an IEEE 754 binary64. A finite one is the rational it denotes, an
  integer of magnitude below \<open>2^53\<close> times a power of two of exponent at least \<open>-1074\<close>;
  \<open>rd64\<close> rounds a rational to the nearest such value, a tie to the one with the even
  significand, as the conversions and the arithmetic of binary64 do. The overflow to
  \<open>inf\<close> beyond \<open>2^1024\<close> (a price label of more than 308 digits, or as many adults) is
  outside the model, which has no largest exponent.
\<close>

text \<open>Rounding to the nearest integer, a tie to the even one.\<close>

definition rne :: "rat \<Rightarrow> int" where
  "rne y =
     (let f = \<lfloor>y\<rfloor>; r = y - of_int f in
      if r < 1 / 2 then f else if r > 1 / 2 then f + 1 else if even f then f else f + 1)"

text \<open>The exponent \<open>L\<close> with \<open>2^L \<le> |q| < 2^(L+1)\<close>, for \<open>q\<close> other than 0.\<close>

definition ilog2 :: "rat \<Rightarrow> int" where
  "ilog2 q =
     (let a = fst (quotient_of \<bar>q\<bar>); b = snd (quotient_of \<bar>q\<bar>); c = bitlen a - bitlen b in
      if 2 powi c \<le> \<bar>q\<bar> then c else c - 1)"

definition rd64 :: "rat \<Rightarrow> rat" where
  "rd64 q =
     (if q = 0 then 0
      else let e = max (ilog2 q - 52) (- 1074) in of_int (rne (q / 2 powi e)) * 2 powi e)"

text \<open>
  \<open>float(s)\<close> on the residue alphabet of \<open>parse_price\<close> (digits and periods): digits
  with at most one period and at least one digit; anything else is Python's ValueError,
  here \<open>None\<close>. The value is the binary64 nearest to the decimal the string denotes.
\<close>

definition py_float :: "string \<Rightarrow> rat option" where
  "py_float s =
     (let ip = takeWhile is_digit s; rest = dropWhile is_digit s in
      if rest = [] then (if ip = [] then None else Some (rd64 (of_nat (digits_val ip))))
      else if hd rest = CHR ''.'' \<and> list_all is_digit (tl rest) \<and> (ip \<noteq> [] \<or> tl rest \<noteq> [])
      then Some (rd64 (of_nat (digits_val ip) + of_nat (digits_val (tl rest)) / 10 ^ length (tl rest)))
      else None)"

section \<open>Price/Stop/Text Normalizer (monitor.py)\<close>

definition parse_price :: "string \<Rightarrow> rat option" where
  "parse_price price_str =
     (if price_str = [] then None
      else
        let cleaned = filter (\<lambda>c. is_digit c \<or> c = CHR ''.'' \<or> c = CHR '','') price_str;
            cleaned =
              (if CHR '','' \<in> set cleaned \<and> CHR ''.'' \<in> set cleaned then
                 (if the (rindex cleaned CHR '','') > the (rindex cleaned CHR ''.'')
                  then replace_char CHR '','' CHR ''.'' (remove_char CHR ''.'' cleaned)
                  else remove_char CHR '','' cleaned)
               else if CHR '','' \<in> set cleaned then
                 (let parts = str_split CHR '','' cleaned in
                  if length (last parts) = 3 then remove_char CHR '','' cleaned
                  else replace_char CHR '','' CHR ''.'' cleaned)
               else cleaned)
        in py_float cleaned)"

text \<open>\<open>s.lower()\<close> on the ASCII letters.\<close>

definition lower_char :: "char \<Rightarrow> char" where
  "lower_char c =
     (let n = (of_char c :: nat) in if 65 \<le> n \<and> n \<le> 90 then char_of (n + 32) else c)"

text \<open>\<open>sub in s\<close> for strings.\<close>

fun contains :: "string \<Rightarrow> string \<Rightarrow> bool" where
  "contains sub [] = (sub = [])"
| "contains sub (c # cs) = (take (length sub) (c # cs) = sub \<or> contains sub cs)"

definition parse_stops :: "string \<Rightarrow> int" where
  "parse_stops stops_str =
     (if stops_str = [] then 0
      else
        let s = map lower_char stops_str in
        if contains ''nonstop'' s \<or> contains ''dirett'' s then 0
        else
          let m = takeWhile is_digit (dropWhile (\<lambda>c. \<not> is_digit c) s) in
          if m \<noteq> [] then int (digits_val m) else 0)"

section \<open>Dates\<close>

text \<open>
  A \<open>datetime.date\<close> is its proleptic Gregorian ordinal (\<open>date.toordinal()\<close>): day 1 is
  0001-01-01 and \<open>date.max\<close> is day 3652059 (9999-12-31). The strings the source carries
  (\<open>%Y-%m-%d\<close>, \<open>%d/%m/%Y\<close>) are one-to-one with the dates of four-digit years, and the
  model carries the date: \<open>date_from\<close> and \<open>date_to\<close> of a configuration are the dates
  \<open>strptime\<close> reads (a string it refuses is outside the model), and every field of a
  configuration holds a value of its type.
\<close>

type_synonym date = int

datatype error = OverflowError | ZeroDivisionError | TimeoutError | PlaywrightError

definition MAX_ORDINAL :: int where
  "MAX_ORDINAL = 3652059"

text \<open>\<open>d + timedelta(days=n)\<close>: \<open>timedelta\<close> raises OverflowError beyond 999999999
  days, and the sum raises OverflowError outside \<open>date.min .. date.max\<close>.\<close>

definition date_plus :: "date \<Rightarrow> int \<Rightarrow> error + date" where
  "date_plus d n =
     (if \<bar>n\<bar> > 999999999 then Inl OverflowError
      else if 1 \<le> d + n \<and> d + n \<le> MAX_ORDINAL then Inr (d + n)
      else Inl OverflowError)"

section \<open>Date-Pair Sampler (monitor.py, generate_date_pairs)\<close>

definition MAX_DAYS_AHEAD :: int where
  "MAX_DAYS_AHEAD = 330"

record config =
  origins :: "string list"
  destination :: string
  date_from :: date
  date_to :: date
  nights_min :: int
  nights_max :: int
  sample_every_n_days :: "int option"
  adults :: int
  max_stops :: int

type_synonym date_pair = "date \<times> date \<times> int"

definition nights_options :: "config \<Rightarrow> int list" where
  "nights_options config =
     (if nights_max config - nights_min config > 2
      then [nights_min config, (nights_min config + nights_max config) div 2, nights_max config]
      else [nights_min config, nights_max config])"

text \<open>The inner loop \<open>for nights in nights_options\<close> at one departure date.\<close>

fun nights_loop :: "date \<Rightarrow> date \<Rightarrow> int list \<Rightarrow> date_pair list \<Rightarrow> error + date_pair list" where
  "nights_loop max_date current [] pairs = Inr pairs"
| "nights_loop max_date current (nights # rest) pairs =
     (case date_plus current nights of
        Inl e \<Rightarrow> Inl e
      | Inr ret \<Rightarrow>
          nights_loop max_date current rest
            (if ret \<le> max_date then pairs @ [(current, ret, nights)] else pairs))"

text \<open>The loop \<open>while current <= effective_end\<close>. It need not end, so its value is an
  option: \<open>None\<close> is the loop that runs forever.\<close>

partial_function (option) departure_loop ::
  "int \<Rightarrow> date \<Rightarrow> date \<Rightarrow> int list \<Rightarrow> date \<Rightarrow> date_pair list \<Rightarrow> (error + date_pair list) option" where
  "departure_loop step max_date effective_end opts current pairs =
     (if current \<le> effective_end then
        (case nights_loop max_date current opts pairs of
           Inl e \<Rightarrow> Some (Inl e)
         | Inr pairs' \<Rightarrow>
             (case date_plus current step of
                Inl e \<Rightarrow> Some (Inl e)
              | Inr current' \<Rightarrow> departure_loop step max_date effective_end opts current' pairs'))
      else Some (Inr pairs))"

declare departure_loop.simps [code]

definition sample_step :: "config \<Rightarrow> int" where
  "sample_step config = (case sample_every_n_days config of None \<Rightarrow> 5 | Some s \<Rightarrow> s)"

definition generate_date_pairs ::
  "config \<Rightarrow> date \<Rightarrow> (error + date_pair list \<times> date \<times> date) option" where
  "generate_date_pairs config today =
     (let start = date_from config; end = date_to config in
      case date_plus today MAX_DAYS_AHEAD of
        Inl e \<Rightarrow> Some (Inl e)
      | Inr max_date \<Rightarrow>
          (case date_plus today 1 of
             Inl e \<Rightarrow> Some (Inl e)
           | Inr tomorrow \<Rightarrow>
               let effective_start = max start tomorrow;
                   effective_end = min end max_date
               in
               if effective_start > effective_end then Some (Inr ([], start, max_date))
               else
                 (case departure_loop (sample_step config) max_date effective_end
                         (nights_options config) effective_start [] of
                    None \<Rightarrow> None
                  | Some (Inl e) \<Rightarrow> Some (Inl e)
                  | Some (Inr pairs) \<Rightarrow> Some (Inr (pairs, start, max_date)))))"

section \<open>Listing Extractor (scraper.py)\<close>

record ScrapedFlight =
  sf_airline :: string
  sf_departure :: string
  sf_arrival :: string
  sf_duration :: string
  sf_stops :: string
  sf_price :: string

record SearchResult =
  flights :: "ScrapedFlight list"
  raw_html :: string

record FlightData =
  fd_date :: date
  from_airport :: string
  to_airport :: string

datatype trip_kind = OneWay | RoundTrip

text \<open>The arguments of one call of \<open>search_flights\<close> or \<open>build_url\<close> (seat and max_stops
  keep their defaults at every call of the source).\<close>

record flight_query =
  flight_data :: "FlightData list"
  trip :: trip_kind
  passengers :: int
  currency :: string

text \<open>
  What the browser does during one call of \<open>_fetch_flights\<close> (here \<open>fetch_flights\<close>):
  whether the browser, its context and the page open; whether the navigation returns or
  times out; which selectors appear before their wait times out; whether the network
  falls idle in time; and what the two page evaluations return (\<open>None\<close> when one
  raises). The first evaluation runs the script that reads the listings off the
  document; its result is taken as it comes. The consent steps catch their own
  exceptions and do not change the value returned, and the fixed pauses
  (\<open>wait_for_timeout\<close>) do not fail: neither is part of the record. The browser is closed
  on every path (\<open>finally\<close>).
\<close>

record page =
  launch_ok :: bool
  goto_ok :: bool
  selector_appears :: "string \<Rightarrow> bool"
  networkidle_ok :: bool
  evaluate_flights :: "ScrapedFlight list option"
  evaluate_html :: "string option"

definition selectors :: "string list" where
  \<open>selectors = [''[jsname="IWWDBc"]'', ''[jsname="YdtKid"]'', ''ul.Rk10dc'', ''[role="main"] li'']\<close>

definition fetch_flights :: "page \<Rightarrow> error + SearchResult" where
  "fetch_flights p =
     (if \<not> launch_ok p then Inl PlaywrightError
      else if \<not> goto_ok p then Inl TimeoutError
      else
        let found = list_ex (selector_appears p) selectors in
        if \<not> found \<and> \<not> networkidle_ok p then Inl TimeoutError
        else
          (case evaluate_flights p of
             None \<Rightarrow> Inl PlaywrightError
           | Some flights_data \<Rightarrow>
               (case evaluate_html p of
                  None \<Rightarrow> Inl PlaywrightError
                | Some html \<Rightarrow> Inr \<lparr>flights = flights_data, raw_html = html\<rparr>)))"

text \<open>
  The world outside the program: the URL encoder of the fast_flights library
  (\<open>build_url\<close>), and the browser, which answers the \<open>n\<close>-th fetch of a run at a URL with
  a \<open>page\<close>.
\<close>

record env =
  build_url :: "flight_query \<Rightarrow> string"
  browser :: "nat \<Rightarrow> string \<Rightarrow> page"

definition search_flights :: "env \<Rightarrow> nat \<Rightarrow> flight_query \<Rightarrow> error + SearchResult" where
  "search_flights e n q = fetch_flights (browser e n (build_url e q))"

section \<open>Search Orchestrator (monitor.py)\<close>

definition KNOWN_AIRPORTS :: "(string \<times> string) list" where
  "KNOWN_AIRPORTS =
     [(''MXP'', ''Malpensa''), (''LIN'', ''Linate''), (''BGY'', ''Bergamo''),
      (''MLE'', ''Mal'' @ [CHR 0xC3, CHR 0xA9]), (''FCO'', ''Fiumicino''),
      (''VCE'', ''Venezia''), (''BLQ'', ''Bologna''), (''NAP'', ''Napoli''),
      (''PMO'', ''Palermo''), (''CTA'', ''Catania''), (''TRN'', ''Torino''),
      (''FLR'', ''Firenze''), (''PSA'', ''Pisa'')]"

definition get_airport_name :: "string \<Rightarrow> string" where
  "get_airport_name code = (case map_of KNOWN_AIRPORTS code of None \<Rightarrow> code | Some name \<Rightarrow> name)"

text \<open>\<open>run_search\<close> catches every exception of the search and returns \<open>None\<close>.\<close>

definition run_search :: "env \<Rightarrow> nat \<Rightarrow> flight_query \<Rightarrow> SearchResult option" where
  "run_search e n q = (case search_flights e n q of Inl err \<Rightarrow> None | Inr result \<Rightarrow> Some result)"

record return_info =
  ret_airline :: string
  ret_departure :: string
  ret_arrival :: string
  ret_duration :: string
  ret_stops :: int
  ret_stops_detail :: string

text \<open>An offer is the dictionary \<open>process_results\<close> builds; \<open>ret_info\<close> is \<open>None\<close> while the
  dictionary has no \<open>ret_*\<close> keys. A price is the rational its binary64 denotes.\<close>

record offer =
  price_total :: rat
  price_pp :: rat
  dep_date :: date
  ret_date :: date
  dep_airport :: string
  dest_airport :: string
  origin_code :: string
  airline :: string
  departure :: string
  arrival :: string
  duration :: string
  stops :: int
  stops_detail :: string
  nights :: int
  link :: string
  ret_info :: "return_info option"

text \<open>\<open>round(x, 2)\<close> of a float: the exact value of \<open>x\<close> is rounded to the nearest multiple
  of 1/100, a tie to the even one, and the result is the binary64 nearest to that
  decimal.\<close>

definition py_round2 :: "rat \<Rightarrow> rat" where
  "py_round2 x = rd64 (of_int (rne (x * 100)) / 100)"

text \<open>\<open>x / n\<close> for a float \<open>x\<close> and an integer \<open>n\<close> other than 0: \<open>n\<close> is converted to a
  float and the quotient is rounded.\<close>

definition float_div :: "rat \<Rightarrow> int \<Rightarrow> rat" where
  "float_div x n = rd64 (x / rd64 (of_int n))"

definition return_query :: "config \<Rightarrow> date \<times> string \<Rightarrow> flight_query" where
  "return_query c k =
     \<lparr>flight_data = [\<lparr>fd_date = fst k, from_airport = destination c, to_airport = snd k\<rparr>],
      trip = OneWay, passengers = adults c, currency = ''EUR''\<rparr>"

definition round_trip_query :: "config \<Rightarrow> string \<Rightarrow> date \<Rightarrow> date \<Rightarrow> flight_query" where
  "round_trip_query c orig dep ret =
     \<lparr>flight_data =
        [\<lparr>fd_date = dep, from_airport = orig, to_airport = destination c\<rparr>,
         \<lparr>fd_date = ret, from_airport = destination c, to_airport = orig\<rparr>],
      trip = RoundTrip, passengers = adults c, currency = ''EUR''\<rparr>"

definition stops_ok :: "config \<Rightarrow> ScrapedFlight \<Rightarrow> bool" where
  "stops_ok c f = (parse_stops (sf_stops f) \<le> max_stops c)"

definition return_detail :: "ScrapedFlight \<Rightarrow> return_info" where
  "return_detail f =
     \<lparr>ret_airline = sf_airline f, ret_departure = sf_departure f, ret_arrival = sf_arrival f,
      ret_duration = sf_duration f, ret_stops = parse_stops (sf_stops f),
      ret_stops_detail = (if sf_stops f = [] then ''Diretto'' else sf_stops f)\<rparr>"

definition search_return_flights :: "env \<Rightarrow> nat \<Rightarrow> config \<Rightarrow> date \<times> string \<Rightarrow> return_info option" where
  "search_return_flights e n c k =
     (case run_search e n (return_query c k) of
        None \<Rightarrow> None
      | Some result \<Rightarrow>
          if flights result = [] then None
          else map_option return_detail (find (stops_ok c) (flights result)))"

text \<open>The loop of \<open>process_results\<close> over the listings of one search.\<close>

fun process_flights ::
  "env \<Rightarrow> config \<Rightarrow> string \<Rightarrow> date \<Rightarrow> date \<Rightarrow> int \<Rightarrow> ScrapedFlight list \<Rightarrow> offer list \<Rightarrow> error + offer list" where
  "process_flights e c orig dep ret n [] acc = Inr acc"
| "process_flights e c orig dep ret n (f # fs) acc =
     (case parse_price (sf_price f) of
        None \<Rightarrow> process_flights e c orig dep ret n fs acc
      | Some price \<Rightarrow>
          if adults c = 0 then Inl ZeroDivisionError
          else
            let per_person = float_div price (adults c);
                num_stops = parse_stops (sf_stops f)
            in
            if num_stops > max_stops c then process_flights e c orig dep ret n fs acc
            else
              process_flights e c orig dep ret n fs
                (acc @
                 [\<lparr>price_total = price, price_pp = py_round2 per_person,
                   dep_date = dep, ret_date = ret,
                   dep_airport = get_airport_name orig,
                   dest_airport = get_airport_name (destination c),
                   origin_code = orig, airline = sf_airline f,
                   departure = sf_departure f, arrival = sf_arrival f,
                   duration = sf_duration f, stops = num_stops,
                   stops_detail = (if sf_stops f = [] then ''Diretto'' else sf_stops f),
                   nights = n, link = build_url e (round_trip_query c orig dep ret),
                   ret_info = None\<rparr>]))"

definition process_results ::
  "env \<Rightarrow> config \<Rightarrow> SearchResult option \<Rightarrow> string \<Rightarrow> date \<Rightarrow> date \<Rightarrow> int \<Rightarrow> error + offer list" where
  "process_results e c result orig dep ret n =
     (case result of
        None \<Rightarrow> Inr []
      | Some r \<Rightarrow> if flights r = [] then Inr [] else process_flights e c orig dep ret n (flights r) [])"

text \<open>
  The state of one run of \<open>main\<close>: the offers found, the two counters, the dictionary
  \<open>unique_returns\<close> in insertion order, and \<open>issued\<close>, the queries passed to
  \<open>run_search\<close> so far, in order; the next fetch is number \<open>length issued\<close>.
\<close>

record run_state =
  all_flights :: "offer list"
  search_count :: nat
  errors :: nat
  unique_returns :: "((date \<times> string) \<times> return_info option) list"
  issued :: "flight_query list"

text \<open>\<open>unique_returns[(ret_date, origin)] = None\<close> for every date pair and origin.\<close>

fun collect_origins ::
  "date \<Rightarrow> string list \<Rightarrow> ((date \<times> string) \<times> return_info option) list \<Rightarrow>
   ((date \<times> string) \<times> return_info option) list" where
  "collect_origins ret [] d = d"
| "collect_origins ret (orig # rest) d = collect_origins ret rest (AList.update (ret, orig) None d)"

fun collect_returns ::
  "date_pair list \<Rightarrow> string list \<Rightarrow> ((date \<times> string) \<times> return_info option) list \<Rightarrow>
   ((date \<times> string) \<times> return_info option) list" where
  "collect_returns [] origs d = d"
| "collect_returns ((dep, ret, n) # rest) origs d =
     collect_returns rest origs (collect_origins ret origs d)"

text \<open>Phase 1: one round-trip search, the loop over the date pairs of one origin, and
  the loop over the origins.\<close>

definition outbound_search :: "env \<Rightarrow> config \<Rightarrow> string \<Rightarrow> date_pair \<Rightarrow> run_state \<Rightarrow> error + run_state" where
  "outbound_search e c orig dp st =
     (let dep = fst dp; ret = fst (snd dp); n = snd (snd dp);
          q = round_trip_query c orig dep ret;
          result = run_search e (length (issued st)) q;
          st = st\<lparr>search_count := search_count st + 1, issued := issued st @ [q]\<rparr>
      in
      case result of
        None \<Rightarrow> Inr (st\<lparr>errors := errors st + 1\<rparr>)
      | Some r \<Rightarrow>
          if flights r \<noteq> [] then
            (case process_results e c result orig dep ret n of
               Inl err \<Rightarrow> Inl err
             | Inr found \<Rightarrow> Inr (st\<lparr>all_flights := all_flights st @ found\<rparr>))
          else Inr st)"

fun outbound_pairs :: "env \<Rightarrow> config \<Rightarrow> string \<Rightarrow> date_pair list \<Rightarrow> run_state \<Rightarrow> error + run_state" where
  "outbound_pairs e c orig [] st = Inr st"
| "outbound_pairs e c orig (dp # rest) st =
     (case outbound_search e c orig dp st of
        Inl err \<Rightarrow> Inl err
      | Inr st' \<Rightarrow> outbound_pairs e c orig rest st')"

fun outbound_origins :: "env \<Rightarrow> config \<Rightarrow> date_pair list \<Rightarrow> string list \<Rightarrow> run_state \<Rightarrow> error + run_state" where
  "outbound_origins e c dps [] st = Inr st"
| "outbound_origins e c dps (orig # rest) st =
     (case outbound_pairs e c orig dps st of
        Inl err \<Rightarrow> Inl err
      | Inr st' \<Rightarrow> outbound_origins e c dps rest st')"

text \<open>Phase 2: the loop over the keys of \<open>unique_returns\<close>.\<close>

fun return_searches :: "env \<Rightarrow> config \<Rightarrow> (date \<times> string) list \<Rightarrow> run_state \<Rightarrow> run_state" where
  "return_searches e c [] st = st"
| "return_searches e c (k # rest) st =
     (let found = search_return_flights e (length (issued st)) c k;
          st = st\<lparr>issued := issued st @ [return_query c k]\<rparr>
      in
      return_searches e c rest
        (case found of
           None \<Rightarrow> st
         | Some info \<Rightarrow> st\<lparr>unique_returns := AList.update k (Some info) (unique_returns st)\<rparr>))"

text \<open>The merge of the return-leg detail into one offer.\<close>

definition merge_return :: "((date \<times> string) \<times> return_info option) list \<Rightarrow> offer \<Rightarrow> offer" where
  "merge_return d f =
     (case map_of d (ret_date f, origin_code f) of
        Some (Some info) \<Rightarrow> f\<lparr>ret_info := Some info\<rparr>
      | _ \<Rightarrow>
          f\<lparr>ret_info :=
              Some \<lparr>ret_airline = airline f, ret_departure = '''', ret_arrival = '''',
                    ret_duration = ''N/D'', ret_stops = stops f,
                    ret_stops_detail = stops_detail f\<rparr>\<rparr>)"

text \<open>The removal of duplicates and the final sort.\<close>

type_synonym dedup_key = "rat \<times> date \<times> date \<times> string \<times> string"

definition key_of :: "offer \<Rightarrow> dedup_key" where
  "key_of f = (price_total f, dep_date f, ret_date f, dep_airport f, airline f)"

fun remove_duplicates :: "dedup_key set \<Rightarrow> offer list \<Rightarrow> offer list \<Rightarrow> offer list" where
  "remove_duplicates seen unique_flights [] = unique_flights"
| "remove_duplicates seen unique_flights (f # fs) =
     (if key_of f \<notin> seen
      then remove_duplicates (insert (key_of f) seen) (unique_flights @ [f]) fs
      else remove_duplicates seen unique_flights fs)"

definition rank :: "offer list \<Rightarrow> offer list" where
  "rank fs = sort_key price_pp (remove_duplicates {} [] fs)"

text \<open>\<open>main\<close> from the date pairs on: both phases, the merge, the removal of duplicates
  and the sort. The value is the final state and the ranked offers. Logging, the pauses
  between searches and the notifications that follow are outside the model.\<close>

definition initial_state :: "date_pair list \<Rightarrow> string list \<Rightarrow> run_state" where
  "initial_state dps origs =
     \<lparr>all_flights = [], search_count = 0, errors = 0,
      unique_returns = collect_returns dps origs [], issued = []\<rparr>"

definition run_searches :: "env \<Rightarrow> config \<Rightarrow> date_pair list \<Rightarrow> error + run_state \<times> offer list" where
  "run_searches e c dps =
     (case outbound_origins e c dps (origins c) (initial_state dps (origins c)) of
        Inl err \<Rightarrow> Inl err
      | Inr st1 \<Rightarrow>
          let st2 = return_searches e c (map fst (unique_returns st1)) st1;
              merged = map (merge_return (unique_returns st2)) (all_flights st2);
              st3 = st2\<lparr>all_flights := merged\<rparr>
          in Inr (st3, rank merged))"

datatype run_outcome = RetryLater | Completed run_state "offer list"

definition main :: "env \<Rightarrow> config \<Rightarrow> date \<Rightarrow> (error + run_outcome) option" where
  "main e c today =
     (case generate_date_pairs c today of
        None \<Rightarrow> None
      | Some (Inl err) \<Rightarrow> Some (Inl err)
      | Some (Inr (dps, req_start, max_available)) \<Rightarrow>
          if dps = [] then Some (Inr RetryLater)
          else
            (case run_searches e c dps of
               Inl err \<Rightarrow> Some (Inl err)
             | Inr (st, ranked) \<Rightarrow> Some (Inr (Completed st ranked))))"

section \<open>Notions used in the statements\<close>

text \<open>The clipped window of \<open>generate_date_pairs\<close>, where its date additions succeed.\<close>

definition effective_start :: "config \<Rightarrow> date \<Rightarrow> date" where
  "effective_start config today = max (date_from config) (today + 1)"

definition effective_end :: "config \<Rightarrow> date \<Rightarrow> date" where
  "effective_end config today = min (date_to config) (today + MAX_DAYS_AHEAD)"

definition window_open :: "config \<Rightarrow> date \<Rightarrow> bool" where
  "window_open config today \<longleftrightarrow>
     1 \<le> today \<and> today + MAX_DAYS_AHEAD \<le> MAX_ORDINAL \<and>
     effective_start config today \<le> effective_end config today"

text \<open>Every candidate return date of the first departure date is a date.\<close>

definition nights_in_range :: "config \<Rightarrow> date \<Rightarrow> bool" where
  "nights_in_range config today \<longleftrightarrow>
     list_all (\<lambda>n. \<bar>n\<bar> \<le> 999999999 \<and> 1 \<le> effective_start config today + n \<and>
                   effective_start config today + n \<le> MAX_ORDINAL)
       (nights_options config)"

text \<open>What the inner loop appends at departure date \<open>d\<close>, and the nights values a
  sequence of pairs attaches to \<open>d\<close>.\<close>

definition emitted :: "date \<Rightarrow> int list \<Rightarrow> date \<Rightarrow> date_pair list" where
  "emitted max_date opts d = map (\<lambda>n. (d, d + n, n)) (filter (\<lambda>n. d + n \<le> max_date) opts)"

definition nights_of :: "date \<Rightarrow> date_pair list \<Rightarrow> int list" where
  "nights_of d pairs = map (\<lambda>p. snd (snd p)) (filter (\<lambda>p. fst p = d) pairs)"

definition grouped :: "date \<Rightarrow> int list \<Rightarrow> date \<Rightarrow> date_pair list \<Rightarrow> bool" where
  "grouped m opts cur pairs \<longleftrightarrow>
     sorted (map fst pairs) \<and> (\<forall>p \<in> set pairs. fst p < cur) \<and>
     (\<forall>d \<in> fst ` set pairs. filter (\<lambda>p. fst p = d) pairs = emitted m opts d)"

text \<open>The finite binary64 values, and \<open>p\<close> being one of them nearest to \<open>x\<close>.\<close>

definition is_binary64 :: "rat \<Rightarrow> bool" where
  "is_binary64 r \<longleftrightarrow> (\<exists>n f. \<bar>n\<bar> < (2::int) ^ 53 \<and> - 1074 \<le> f \<and> r = of_int n * 2 powi f)"

definition nearest64 :: "rat \<Rightarrow> rat \<Rightarrow> bool" where
  "nearest64 x p \<longleftrightarrow> is_binary64 p \<and> (\<forall>r. is_binary64 r \<longrightarrow> \<bar>p - x\<bar> \<le> \<bar>r - x\<bar>)"

text \<open>The queries of Phase 1 in the order of its two loops, the keys of
  \<open>unique_returns\<close> in insertion order, the (return date, origin) pairs a list of
  offers refers to, and the number of searches of a list that raise, the first of them
  being fetch number \<open>n\<close>.\<close>

definition outbound_queries :: "config \<Rightarrow> date_pair list \<Rightarrow> flight_query list" where
  "outbound_queries c dps =
     concat (map (\<lambda>orig. map (\<lambda>dp. round_trip_query c orig (fst dp) (fst (snd dp))) dps)
       (origins c))"

definition return_keys :: "date_pair list \<Rightarrow> string list \<Rightarrow> (date \<times> string) list" where
  "return_keys dps origs = map fst (collect_returns dps origs [])"

definition referenced_returns :: "offer list \<Rightarrow> (date \<times> string) set" where
  "referenced_returns fs = (\<lambda>f. (ret_date f, origin_code f)) ` set fs"

fun count_raised :: "env \<Rightarrow> nat \<Rightarrow> flight_query list \<Rightarrow> nat" where
  "count_raised e n [] = 0"
| "count_raised e n (q # qs) =
     (if isl (search_flights e n q) then 1 else 0) + count_raised e (Suc n) qs"

text \<open>An offer built from a listing of \<open>fs\<close> as \<open>process_results\<close> builds it.\<close>

definition listing_offer :: "config \<Rightarrow> ScrapedFlight list \<Rightarrow> offer \<Rightarrow> bool" where
  "listing_offer c fs x \<longleftrightarrow>
     adults c \<noteq> 0 \<and> price_pp x = py_round2 (float_div (price_total x) (adults c)) \<and>
     (\<exists>f \<in> set fs. parse_price (sf_price f) = Some (price_total x) \<and>
        stops x = parse_stops (sf_stops f) \<and> stops x \<le> max_stops c)"

text \<open>A dictionary whose values are all \<open>None\<close>.\<close>

definition all_none :: "('k \<times> 'v option) list \<Rightarrow> bool" where
  "all_none d \<longleftrightarrow> (\<forall>k v. map_of d k = Some v \<longrightarrow> v = None)"

subsection \<open>Concrete inputs\<close>

text \<open>A configuration for Milan to Mal\'e, and 2026-11-03 (day 739923) as today.\<close>

definition example_config :: config where
  "example_config =
     \<lparr>origins = [''MXP''], destination = ''MLE'', date_from = 739924, date_to = 739933,
      nights_min = 3, nights_max = 5, sample_every_n_days = Some 5, adults = 2, max_stops = 1\<rparr>"

text \<open>A results page with one nonstop listing at 1,200 euros; a browser that shows it at
  every fetch, and one whose every navigation times out.\<close>

definition example_page :: page where
  "example_page =
     \<lparr>launch_ok = True, goto_ok = True, selector_appears = (\<lambda>s. True), networkidle_ok = True,
      evaluate_flights =
        Some [\<lparr>sf_airline = ''ITA Airways'', sf_departure = ''10:00'', sf_arrival = ''20:00'',
               sf_duration = ''10 hr'', sf_stops = ''Nonstop'', sf_price = euro @ ''1,200''\<rparr>],
      evaluate_html = Some ''''\<rparr>"

definition example_env :: env where
  "example_env = \<lparr>build_url = (\<lambda>q. ''https://www.google.com/travel/flights''),
                  browser = (\<lambda>n url. example_page)\<rparr>"

definition down_env :: env where
  "down_env = \<lparr>build_url = (\<lambda>q. ''https://www.google.com/travel/flights''),
               browser = (\<lambda>n url. example_page\<lparr>goto_ok := False\<rparr>)\<rparr>"

text \<open>A results page with four listings, the second a copy of the first but for its
  duration and stops (priced 440, 440, 300 and 600 euros); and a browser that shows the
  example page at the first fetch of a run and times out afterwards.\<close>

definition ranking_page :: page where
  "ranking_page =
     example_page\<lparr>evaluate_flights :=
       Some [\<lparr>sf_airline = ''ITA Airways'', sf_departure = ''10:00'', sf_arrival = ''20:00'',
              sf_duration = ''10 hr'', sf_stops = ''Nonstop'', sf_price = euro @ ''440''\<rparr>,
             \<lparr>sf_airline = ''ITA Airways'', sf_departure = ''10:00'', sf_arrival = ''22:00'',
              sf_duration = ''12 hr'', sf_stops = ''1 stop'', sf_price = euro @ ''440''\<rparr>,
             \<lparr>sf_airline = ''Qatar Airways'', sf_departure = ''11:00'', sf_arrival = ''23:30'',
              sf_duration = ''12 hr 30 min'', sf_stops = ''1 stop'', sf_price = euro @ ''300''\<rparr>,
             \<lparr>sf_airline = ''Emirates'', sf_departure = ''09:00'', sf_arrival = ''21:00'',
              sf_duration = ''12 hr'', sf_stops = ''1 stop'', sf_price = euro @ ''600''\<rparr>]\<rparr>"

definition ranking_env :: env where
  "ranking_env = \<lparr>build_url = (\<lambda>q. ''https://www.google.com/travel/flights''),
                  browser = (\<lambda>n url. ranking_page)\<rparr>"

definition outbound_only_env :: env where
  "outbound_only_env =
     \<lparr>build_url = (\<lambda>q. ''https://www.google.com/travel/flights''),
      browser = (\<lambda>n url. if n = 0 then example_page else example_page\<lparr>goto_ok := False\<rparr>)\<rparr>"

section \<open>Binary64 rounding\<close>

lemma rne_cases: "rne y = \<lfloor>y\<rfloor> \<or> rne y = \<lfloor>y\<rfloor> + 1"
  by (auto simp: rne_def Let_def)

lemma rne_half: "\<bar>of_int (rne y) - y\<bar> \<le> 1 / 2"
proof -
  have "of_int \<lfloor>y\<rfloor> \<le> y" "y < of_int \<lfloor>y\<rfloor> + 1" by linarith+
  then show ?thesis by (auto simp: rne_def Let_def)
qed

lemma rne_nearest: "\<bar>of_int (rne y) - y\<bar> \<le> \<bar>of_int n - y\<bar>"
proof (cases "n = rne y")
  case True
  then show ?thesis by simp
next
  case False
  then have "\<bar>n - rne y\<bar> \<ge> 1" by linarith
  then have "\<bar>(of_int n :: rat) - of_int (rne y)\<bar> \<ge> 1"
    by (metis of_int_1 of_int_abs of_int_diff of_int_le_iff)
  with rne_half [of y] show ?thesis by linarith
qed

lemma powi_pos: "0 < (2::rat) powi e"
  by (simp add: power_int_def)

lemma powi_nat: "0 \<le> e \<Longrightarrow> (2::rat) powi e = of_int (2 ^ nat e)"
  by (simp add: power_int_def)

lemma bitlen_powi:
  assumes "0 < a"
  shows "(2::rat) powi (bitlen a - 1) \<le> of_int a \<and> of_int a < (2::rat) powi (bitlen a)"
proof -
  from bitlen_bounds [OF assms]
  have lo: "2 ^ nat (bitlen a - 1) \<le> a" and hi: "a < 2 ^ nat (bitlen a)" by simp_all
  from assms have b: "1 \<le> bitlen a" by (auto simp: bitlen_alt_def)
  from lo have "(of_int (2 ^ nat (bitlen a - 1)) :: rat) \<le> of_int a" by (simp only: of_int_le_iff)
  moreover from hi have "(of_int a :: rat) < of_int (2 ^ nat (bitlen a))" by (simp only: of_int_less_iff)
  ultimately show ?thesis using b by (simp add: powi_nat)
qed

lemma ilog2_bounds:
  assumes "q \<noteq> 0"
  shows "2 powi (ilog2 q) \<le> \<bar>q\<bar> \<and> \<bar>q\<bar> < 2 powi (ilog2 q + 1)"
proof -
  obtain a b where ab: "quotient_of \<bar>q\<bar> = (a, b)" by (cases "quotient_of \<bar>q\<bar>") auto
  then have b: "0 < b" by (rule quotient_of_denom_pos)
  from ab have q: "\<bar>q\<bar> = of_int a / of_int b" by (rule quotient_of_div)
  from assms have "0 < \<bar>q\<bar>" by simp
  with q b have a: "0 < a" by (simp add: zero_less_divide_iff)
  define c where "c = bitlen a - bitlen b"
  from bitlen_powi [OF a] bitlen_powi [OF b]
  have la: "(2::rat) powi (bitlen a - 1) \<le> of_int a" "of_int a < (2::rat) powi (bitlen a)"
    and lb: "(2::rat) powi (bitlen b - 1) \<le> of_int b" "of_int b < (2::rat) powi (bitlen b)"
    by simp_all
  have bpos: "(0::rat) < of_int b" using b by simp
  have up: "\<bar>q\<bar> < 2 powi (c + 1)"
  proof -
    have "of_int a / of_int b < (2::rat) powi (bitlen a) / of_int b"
      using la(2) bpos by (simp add: divide_strict_right_mono)
    also have "\<dots> \<le> 2 powi (bitlen a) / 2 powi (bitlen b - 1)"
      using lb(1) powi_pos [of "bitlen a"] powi_pos [of "bitlen b - 1"]
      by (simp add: frac_le)
    also have "\<dots> = 2 powi (c + 1)"
      by (simp add: c_def power_int_diff [symmetric] algebra_simps)
    finally show ?thesis using q by simp
  qed
  have lo: "2 powi (c - 1) \<le> \<bar>q\<bar>"
  proof -
    have "(2::rat) powi (c - 1) = 2 powi (bitlen a - 1) / 2 powi (bitlen b)"
      by (simp add: c_def power_int_diff [symmetric] algebra_simps)
    also have "\<dots> \<le> of_int a / 2 powi (bitlen b)"
      using la(1) powi_pos [of "bitlen b"] by (simp add: divide_right_mono)
    also have "\<dots> \<le> of_int a / of_int b"
      using lb(2) a bpos by (simp add: frac_le)
    finally show ?thesis using q by simp
  qed
  show ?thesis
  proof (cases "2 powi c \<le> \<bar>q\<bar>")
    case True
    with ab up show ?thesis by (simp add: ilog2_def c_def)
  next
    case False
    with ab lo show ?thesis by (simp add: ilog2_def c_def)
  qed
qed

lemma abs_scale:
  fixes x q s :: rat
  assumes "0 < s"
  shows "\<bar>x * s - q\<bar> = \<bar>x - q / s\<bar> * s"
proof -
  from assms have "x * s - q = (x - q / s) * s" by (simp add: left_diff_distrib)
  then have "\<bar>x * s - q\<bar> = \<bar>x - q / s\<bar> * \<bar>s\<bar>" by (simp only: abs_mult)
  with assms show ?thesis by simp
qed

lemma grid_nearest:
  "\<bar>of_int (rne (q / 2 powi e)) * 2 powi e - q\<bar> \<le> \<bar>of_int n * 2 powi e - q\<bar>"
proof -
  have p: "(0::rat) < 2 powi e" by (rule powi_pos)
  have "\<bar>of_int (rne (q / 2 powi e)) * 2 powi e - q\<bar> =
        \<bar>of_int (rne (q / 2 powi e)) - q / 2 powi e\<bar> * 2 powi e"
    by (rule abs_scale [OF p])
  also have "\<dots> \<le> \<bar>of_int n - q / 2 powi e\<bar> * 2 powi e"
    using rne_nearest [of "q / 2 powi e" n] p by (simp add: mult_right_mono)
  also have "\<dots> = \<bar>of_int n * 2 powi e - q\<bar>"
    by (rule abs_scale [OF p, symmetric])
  finally show ?thesis .
qed

lemma powi_mono: "e \<le> f \<Longrightarrow> (2::rat) powi e \<le> 2 powi f"
  by (rule power_int_increasing) simp_all

lemma powi_split: "(2::rat) powi (e + f) = 2 powi e * 2 powi f"
  by (rule power_int_add) simp

lemma rne_bound:
  assumes "\<bar>y\<bar> < of_int k"
  shows "\<bar>rne y\<bar> \<le> k"
proof -
  from assms have "y < of_int k" "- of_int k < y" by linarith+
  then have "\<lfloor>y\<rfloor> < k" "- k \<le> \<lfloor>y\<rfloor>"
    by (simp_all add: floor_less_iff le_floor_iff)
  with rne_cases [of y] show ?thesis by linarith
qed

lemma is_binary64_grid:
  assumes "\<bar>m\<bar> \<le> (2::int) ^ 53" and "- 1074 \<le> e"
  shows "is_binary64 (of_int m * 2 powi e)"
proof (cases "\<bar>m\<bar> < 2 ^ 53")
  case True
  with assms(2) show ?thesis unfolding is_binary64_def by blast
next
  case False
  with assms(1) have m: "m = 2 ^ 53 \<or> m = - (2 ^ 53)" by linarith
  have two: "(2::rat) powi (e + 1) = 2 * 2 powi e"
    using powi_split [of e 1] by (simp add: mult.commute)
  have "(of_int m :: rat) * 2 powi e = of_int (m div 2) * 2 powi (e + 1)"
    using m two by auto
  moreover from m have "\<bar>m div 2\<bar> < 2 ^ 53" by auto
  moreover from assms(2) have "- 1074 \<le> e + 1" by simp
  ultimately show ?thesis unfolding is_binary64_def by blast
qed

lemma rd64_nearest: "nearest64 q (rd64 q)"
proof (cases "q = 0")
  case True
  have "is_binary64 0" unfolding is_binary64_def
    by (rule exI [of _ 0], rule exI [of _ 0]) simp
  with True show ?thesis by (simp add: nearest64_def rd64_def)
next
  case False
  define e where "e = max (ilog2 q - 52) (- 1074)"
  define m where "m = rne (q / 2 powi e)"
  have rd: "rd64 q = of_int m * 2 powi e"
    using False by (simp add: rd64_def Let_def e_def m_def)
  have p: "(0::rat) < 2 powi e" by (rule powi_pos)
  from ilog2_bounds [OF False]
  have lo: "2 powi (ilog2 q) \<le> \<bar>q\<bar>" and hi: "\<bar>q\<bar> < 2 powi (ilog2 q + 1)" by simp_all
  have e1: "- 1074 \<le> e" and e2: "ilog2 q - 52 \<le> e" by (simp_all add: e_def)
  have "\<bar>q / 2 powi e\<bar> = \<bar>q\<bar> / 2 powi e" using p by simp
  also have "\<dots> < 2 powi (ilog2 q + 1) / 2 powi e"
    using hi p by (simp add: divide_strict_right_mono)
  also have "\<dots> = 2 powi (ilog2 q + 1 - e)"
    by (simp add: power_int_diff)
  also have "\<dots> \<le> 2 powi 53"
    using e2 by (intro powi_mono) simp
  also have "\<dots> = of_int (2 ^ 53)" by (simp add: powi_nat)
  finally have "\<bar>m\<bar> \<le> 2 ^ 53" unfolding m_def by (rule rne_bound)
  then have bin: "is_binary64 (of_int m * 2 powi e)" using e1 by (rule is_binary64_grid)
  have near: "\<bar>of_int m * 2 powi e - q\<bar> \<le> \<bar>r - q\<bar>" if r: "is_binary64 r" for r
  proof -
    from r obtain n f where n: "\<bar>n\<bar> < (2::int) ^ 53" and f: "- 1074 \<le> f"
      and r': "r = of_int n * 2 powi f"
      unfolding is_binary64_def by blast
    show ?thesis
    proof (cases "e \<le> f")
      case True
      then have "(2::rat) powi f = 2 powi (f - e) * 2 powi e"
        using powi_split [of "f - e" e] by simp
      also have "(2::rat) powi (f - e) = of_int (2 ^ nat (f - e))"
        using True by (simp add: powi_nat)
      finally have "r = of_int (n * 2 ^ nat (f - e)) * 2 powi e"
        using r' by simp
      with grid_nearest [of q e "n * 2 ^ nat (f - e)"] show ?thesis
        by (simp add: m_def)
    next
      case False
      with f have ee: "e = ilog2 q - 52" by (simp add: e_def)
      have "\<bar>r\<bar> = of_int \<bar>n\<bar> * 2 powi f"
        using r' powi_pos [of f] by (simp add: abs_mult)
      also have "\<dots> < of_int (2 ^ 53) * 2 powi f"
        using n powi_pos [of f] by (simp add: mult_strict_right_mono)
      also have "\<dots> = 2 powi (53 + f)"
        using powi_split [of 53 f] by (simp add: powi_nat)
      also have "\<dots> \<le> 2 powi (ilog2 q)"
        using False ee by (intro powi_mono) simp
      finally have rlt: "\<bar>r\<bar> < 2 powi (ilog2 q)" .
      have g: "(2::rat) powi (ilog2 q) = of_int (2 ^ 52) * 2 powi e"
        using powi_split [of 52 e] ee by (simp add: powi_nat)
      have "\<bar>of_int m * 2 powi e - q\<bar> \<le> \<bar>q\<bar> - 2 powi (ilog2 q)"
      proof (cases "0 < q")
        case True
        from grid_nearest [of q e "2 ^ 52"] g
        have "\<bar>of_int m * 2 powi e - q\<bar> \<le> \<bar>2 powi (ilog2 q) - q\<bar>"
          by (simp add: m_def)
        with True lo show ?thesis by simp
      next
        case False
        with \<open>q \<noteq> 0\<close> have neg: "q < 0" by simp
        from grid_nearest [of q e "- (2 ^ 52)"] g
        have "\<bar>of_int m * 2 powi e - q\<bar> \<le> \<bar>- (2 powi (ilog2 q)) - q\<bar>"
          by (simp add: m_def)
        with neg lo show ?thesis by simp
      qed
      also have "\<dots> < \<bar>q\<bar> - \<bar>r\<bar>" using rlt by simp
      also have "\<dots> \<le> \<bar>r - q\<bar>" by linarith
      finally show ?thesis by simp
    qed
  qed
  from bin near rd show ?thesis by (simp add: nearest64_def)
qed

lemma nearest64_exact: "is_binary64 x \<Longrightarrow> nearest64 x p \<Longrightarrow> p = x"
  unfolding nearest64_def by fastforce

section \<open>The normalizer\<close>

lemma rindex_Some: "c \<in> set s \<Longrightarrow> \<exists>i. rindex s c = Some i"
  by (induction s) (auto split: option.splits)

text \<open>
  C1. On the documented examples \<open>parse_price\<close> yields 1234 for "EUR 1,234" and 1234.56
  (the float nearest to it) for "EUR 1,234.56" and "EUR 1.234,56" (EUR standing for the
  euro sign), and the unparseable signal for "" and "N/A"; on "EUR 1.234" it yields the
  float 1.234, between 1 and 2, and not 1234: a string with periods and no comma reaches
  \<open>float\<close> unchanged.
\<close>

theorem parse_price_examples:
  "parse_price (euro @ ''1.234'') = Some (rd64 (1234 / 1000)) \<and>
   1 < rd64 (1234 / 1000) \<and> rd64 (1234 / 1000) < 2 \<and>
   parse_price (euro @ ''1.234'') \<noteq> Some 1234 \<and>
   parse_price (euro @ ''1,234'') = Some 1234 \<and>
   parse_price (euro @ ''1,234.56'') = Some (rd64 (123456 / 100)) \<and>
   parse_price (euro @ ''1.234,56'') = Some (rd64 (123456 / 100)) \<and>
   parse_price '''' = None \<and>
   parse_price ''N/A'' = None"
  by code_simp

section \<open>The date-pair sampler\<close>

lemma date_plus_Inr: "date_plus d n = Inr r \<Longrightarrow> r = d + n \<and> 1 \<le> r \<and> r \<le> MAX_ORDINAL"
  by (auto simp: date_plus_def split: if_splits)

lemma emitted_props:
  "p \<in> set (emitted m opts cur) \<Longrightarrow>
   fst p = cur \<and> fst (snd p) = cur + snd (snd p) \<and> fst (snd p) \<le> m"
  by (auto simp: emitted_def)

lemma nights_loop_Inr:
  "nights_loop m cur opts pairs = Inr out \<Longrightarrow> out = pairs @ emitted m opts cur"
proof (induction opts arbitrary: pairs)
  case Nil
  then show ?case by (simp add: emitted_def)
next
  case (Cons n opts)
  then obtain ret where r: "date_plus cur n = Inr ret"
    by (cases "date_plus cur n") auto
  then have ret: "ret = cur + n" by (simp add: date_plus_Inr)
  from Cons.prems r
  have "nights_loop m cur opts (if ret \<le> m then pairs @ [(cur, ret, n)] else pairs) = Inr out"
    by simp
  from Cons.IH [OF this] ret show ?case
    by (simp add: emitted_def)
qed

lemma nights_loop_total:
  "\<forall>n \<in> set opts. \<bar>n\<bar> \<le> 999999999 \<and> 1 \<le> cur + n \<and> cur + n \<le> MAX_ORDINAL \<Longrightarrow>
   \<exists>out. nights_loop m cur opts pairs = Inr out"
  by (induction opts arbitrary: pairs) (auto simp: date_plus_def)

subsection \<open>Termination of the walk\<close>

lemma departure_loop_terminates:
  "1 \<le> step \<Longrightarrow> \<exists>r. departure_loop step m eend opts cur pairs = Some r"
proof (induction "nat (eend + 1 - cur)" arbitrary: cur pairs rule: less_induct)
  case less
  show ?case
  proof (cases "cur \<le> eend")
    case False
    then show ?thesis by (subst departure_loop.simps) simp
  next
    case True
    show ?thesis
    proof (cases "nights_loop m cur opts pairs")
      case (Inl e)
      with True show ?thesis by (subst departure_loop.simps) simp
    next
      case (Inr pairs')
      show ?thesis
      proof (cases "date_plus cur step")
        case (Inl e)
        with True Inr show ?thesis by (subst departure_loop.simps) simp
      next
        case cur': (Inr cur')
        then have "cur' = cur + step" by (simp add: date_plus_Inr)
        with True less.prems have "nat (eend + 1 - cur') < nat (eend + 1 - cur)" by simp
        from less.hyps [OF this less.prems]
        obtain r where "departure_loop step m eend opts cur' pairs' = Some r" by blast
        with True Inr cur' show ?thesis by (subst departure_loop.simps) simp
      qed
    qed
  qed
qed

lemma departure_loop_no_return:
  assumes "departure_loop step m eend opts cur pairs = Some y"
  shows "step \<le> 0 \<longrightarrow> cur \<le> eend \<longrightarrow> isl y"
proof (rule departure_loop.raw_induct
    [where P = "\<lambda>step m eend opts cur pairs y. step \<le> 0 \<longrightarrow> cur \<le> eend \<longrightarrow> isl y", OF _ assms],
    goal_cases)
  case (1 f step m eend opts cur pairs y)
  show ?case
  proof (intro impI)
    assume s: "step \<le> 0" and c: "cur \<le> eend"
    show "isl y"
    proof (cases "nights_loop m cur opts pairs")
      case (Inl e)
      with 1(2) c show ?thesis by auto
    next
      case (Inr pairs')
      show ?thesis
      proof (cases "date_plus cur step")
        case (Inl e)
        with 1(2) c Inr show ?thesis by auto
      next
        case cur': (Inr cur')
        then have "cur' = cur + step" by (simp add: date_plus_Inr)
        with s c have le: "cur' \<le> eend" by simp
        from 1(2) c Inr cur' have "f step m eend opts cur' pairs' = Some y" by simp
        from 1(1) [OF this] s le show ?thesis by simp
      qed
    qed
  qed
qed

lemma departure_loop_diverges_aux:
  assumes "departure_loop step m eend opts cur pairs = Some y"
  shows "step = 0 \<longrightarrow> cur \<le> eend \<longrightarrow> 1 \<le> cur \<longrightarrow> cur \<le> MAX_ORDINAL \<longrightarrow>
    (\<forall>n \<in> set opts. \<bar>n\<bar> \<le> 999999999 \<and> 1 \<le> cur + n \<and> cur + n \<le> MAX_ORDINAL) \<longrightarrow> False"
proof (rule departure_loop.raw_induct
    [where P = "\<lambda>step m eend opts cur pairs y. step = 0 \<longrightarrow> cur \<le> eend \<longrightarrow> 1 \<le> cur \<longrightarrow>
      cur \<le> MAX_ORDINAL \<longrightarrow>
      (\<forall>n \<in> set opts. \<bar>n\<bar> \<le> 999999999 \<and> 1 \<le> cur + n \<and> cur + n \<le> MAX_ORDINAL) \<longrightarrow> False",
      OF _ assms], goal_cases)
  case (1 f step m eend opts cur pairs y)
  show ?case
  proof (intro impI)
    assume s: "step = 0" and c: "cur \<le> eend" and v: "1 \<le> cur" "cur \<le> MAX_ORDINAL"
      and n: "\<forall>n \<in> set opts. \<bar>n\<bar> \<le> 999999999 \<and> 1 \<le> cur + n \<and> cur + n \<le> MAX_ORDINAL"
    from nights_loop_total [OF n] obtain pairs' where p: "nights_loop m cur opts pairs = Inr pairs'"
      by blast
    from s v have d: "date_plus cur step = Inr cur" by (simp add: date_plus_def)
    from 1(2) c p d have "f step m eend opts cur pairs' = Some y" by simp
    from 1(1) [OF this] s c v n show False by blast
  qed
qed

lemma departure_loop_diverges:
  "cur \<le> eend \<Longrightarrow> 1 \<le> cur \<Longrightarrow> cur \<le> MAX_ORDINAL \<Longrightarrow>
   \<forall>n \<in> set opts. \<bar>n\<bar> \<le> 999999999 \<and> 1 \<le> cur + n \<and> cur + n \<le> MAX_ORDINAL \<Longrightarrow>
   departure_loop 0 m eend opts cur pairs = None"
  using departure_loop_diverges_aux [of 0 m eend opts cur pairs]
  by (cases "departure_loop 0 m eend opts cur pairs") auto

lemma departure_loop_backwards:
  "step < 0 \<Longrightarrow> cur \<le> eend \<Longrightarrow> \<exists>e. departure_loop step m eend opts cur pairs = Some (Inl e)"
proof (induction "nat cur" arbitrary: cur pairs rule: less_induct)
  case less
  show ?case
  proof (cases "nights_loop m cur opts pairs")
    case (Inl e)
    with less.prems show ?thesis by (subst departure_loop.simps) simp
  next
    case (Inr pairs')
    show ?thesis
    proof (cases "date_plus cur step")
      case (Inl e)
      with less.prems Inr show ?thesis by (subst departure_loop.simps) simp
    next
      case cur': (Inr cur')
      then have c: "cur' = cur + step" "1 \<le> cur'" by (simp_all add: date_plus_Inr)
      with less.prems have "nat cur' < nat cur" "cur' \<le> eend" by simp_all
      from less.hyps [OF this(1) less.prems(1) this(2)]
      obtain e where "departure_loop step m eend opts cur' pairs' = Some (Inl e)" by blast
      with less.prems Inr cur' show ?thesis by (subst departure_loop.simps) simp
    qed
  qed
qed

lemma date_plus_Inl: "date_plus d n = Inl e \<Longrightarrow> e = OverflowError"
  by (auto simp: date_plus_def split: if_splits)

lemma nights_loop_Inl: "nights_loop m cur opts pairs = Inl e \<Longrightarrow> e = OverflowError"
proof (induction opts arbitrary: pairs)
  case Nil
  then show ?case by simp
next
  case (Cons n opts)
  show ?case
  proof (cases "date_plus cur n")
    case (Inl e')
    with Cons.prems show ?thesis by (auto dest: date_plus_Inl)
  next
    case (Inr ret)
    with Cons.prems Cons.IH show ?thesis by auto
  qed
qed

lemma departure_loop_Inl:
  assumes "departure_loop step m eend opts cur pairs = Some y"
  shows "\<forall>e. y = Inl e \<longrightarrow> e = OverflowError"
proof (rule departure_loop.raw_induct
    [where P = "\<lambda>step m eend opts cur pairs y. \<forall>e. y = Inl e \<longrightarrow> e = OverflowError",
      OF _ assms], goal_cases)
  case (1 f step m eend opts cur pairs y)
  show ?case
  proof (intro allI impI)
    fix e
    assume y: "y = Inl e"
    show "e = OverflowError"
    proof (cases "cur \<le> eend")
      case False
      with 1(2) y show ?thesis by simp
    next
      case True
      show ?thesis
      proof (cases "nights_loop m cur opts pairs")
        case (Inl e')
        with 1(2) True y show ?thesis by (auto dest: nights_loop_Inl)
      next
        case (Inr pairs')
        show ?thesis
        proof (cases "date_plus cur step")
          case (Inl e')
          with 1(2) True Inr y show ?thesis by (auto dest: date_plus_Inl)
        next
          case cur': (Inr cur')
          with 1(2) True Inr have "f step m eend opts cur' pairs' = Some y" by simp
          from 1(1) [OF this] y show ?thesis by simp
        qed
      qed
    qed
  qed
qed

subsection \<open>What the walk emits\<close>

lemma departure_loop_within:
  assumes "departure_loop step m eend opts cur pairs = Some y"
  shows "(\<forall>p \<in> set pairs. fst (snd p) = fst p + snd (snd p) \<and> fst (snd p) \<le> m) \<longrightarrow>
         (\<forall>out. y = Inr out \<longrightarrow> (\<forall>p \<in> set out. fst (snd p) = fst p + snd (snd p) \<and> fst (snd p) \<le> m))"
proof (rule departure_loop.raw_induct
    [where P = "\<lambda>step m eend opts cur pairs y.
      (\<forall>p \<in> set pairs. fst (snd p) = fst p + snd (snd p) \<and> fst (snd p) \<le> m) \<longrightarrow>
      (\<forall>out. y = Inr out \<longrightarrow> (\<forall>p \<in> set out. fst (snd p) = fst p + snd (snd p) \<and> fst (snd p) \<le> m))",
      OF _ assms], goal_cases)
  case (1 f step m eend opts cur pairs y)
  show ?case
  proof (intro impI allI)
    fix out
    assume inv: "\<forall>p \<in> set pairs. fst (snd p) = fst p + snd (snd p) \<and> fst (snd p) \<le> m"
      and y: "y = Inr out"
    show "\<forall>p \<in> set out. fst (snd p) = fst p + snd (snd p) \<and> fst (snd p) \<le> m"
    proof (cases "cur \<le> eend")
      case False
      with 1(2) y inv show ?thesis by auto
    next
      case True
      from 1(2) True y obtain pairs' where p: "nights_loop m cur opts pairs = Inr pairs'"
        by (cases "nights_loop m cur opts pairs") auto
      from 1(2) True y p obtain cur' where c: "date_plus cur step = Inr cur'"
        by (cases "date_plus cur step") auto
      from 1(2) True p c have call: "f step m eend opts cur' pairs' = Some y" by simp
      from nights_loop_Inr [OF p] have "pairs' = pairs @ emitted m opts cur" .
      with inv have "\<forall>p \<in> set pairs'. fst (snd p) = fst p + snd (snd p) \<and> fst (snd p) \<le> m"
        by (auto dest: emitted_props)
      with 1(1) [OF call] y show ?thesis by blast
    qed
  qed
qed

lemma filter_emitted_same: "filter (\<lambda>p. fst p = d) (emitted m opts d) = emitted m opts d"
  by (simp add: emitted_def filter_map o_def)

lemma filter_emitted_other: "d \<noteq> c \<Longrightarrow> filter (\<lambda>p. fst p = d) (emitted m opts c) = []"
  by (simp add: emitted_def filter_map o_def)

lemma grouped_step:
  assumes g: "grouped m opts cur pairs" and s: "1 \<le> step"
  shows "grouped m opts (cur + step) (pairs @ emitted m opts cur)"
proof -
  from g have srt: "sorted (map fst pairs)" and lt: "\<forall>p \<in> set pairs. fst p < cur"
    and grp: "\<forall>d \<in> fst ` set pairs. filter (\<lambda>p. fst p = d) pairs = emitted m opts d"
    by (simp_all add: grouped_def)
  have e: "\<forall>p \<in> set (emitted m opts cur). fst p = cur" by (auto dest: emitted_props)
  have "sorted (map fst (emitted m opts cur))"
    by (simp add: emitted_def o_def sorted_wrt_iff_nth_less)
  with srt lt e have 1: "sorted (map fst (pairs @ emitted m opts cur))"
    by (fastforce simp: sorted_append)
  from lt e s have 2: "\<forall>p \<in> set (pairs @ emitted m opts cur). fst p < cur + step"
    by fastforce
  have 3: "filter (\<lambda>p. fst p = d) (pairs @ emitted m opts cur) = emitted m opts d"
    if d: "d \<in> fst ` set (pairs @ emitted m opts cur)" for d
  proof (cases "d = cur")
    case True
    from lt have "filter (\<lambda>p. fst p = cur) pairs = []" by (auto simp: filter_empty_conv)
    with True show ?thesis by (simp add: filter_emitted_same)
  next
    case False
    with d e have "d \<in> fst ` set pairs" by auto
    with grp have "filter (\<lambda>p. fst p = d) pairs = emitted m opts d" by blast
    with False show ?thesis by (simp add: filter_emitted_other)
  qed
  from 1 2 3 show ?thesis unfolding grouped_def by blast
qed

lemma departure_loop_grouped:
  assumes "departure_loop step m eend opts cur pairs = Some y"
  shows "1 \<le> step \<longrightarrow> grouped m opts cur pairs \<longrightarrow>
         (\<forall>out. y = Inr out \<longrightarrow> (\<exists>c. grouped m opts c out))"
proof (rule departure_loop.raw_induct
    [where P = "\<lambda>step m eend opts cur pairs y. 1 \<le> step \<longrightarrow> grouped m opts cur pairs \<longrightarrow>
         (\<forall>out. y = Inr out \<longrightarrow> (\<exists>c. grouped m opts c out))",
      OF _ assms], goal_cases)
  case (1 f step m eend opts cur pairs y)
  show ?case
  proof (intro impI allI)
    fix out
    assume s: "1 \<le> step" and inv: "grouped m opts cur pairs" and y: "y = Inr out"
    show "\<exists>c. grouped m opts c out"
    proof (cases "cur \<le> eend")
      case False
      with 1(2) y inv show ?thesis by auto
    next
      case True
      from 1(2) True y obtain pairs' where p: "nights_loop m cur opts pairs = Inr pairs'"
        by (cases "nights_loop m cur opts pairs") auto
      from 1(2) True y p obtain cur' where c: "date_plus cur step = Inr cur'"
        by (cases "date_plus cur step") auto
      from 1(2) True p c have call: "f step m eend opts cur' pairs' = Some y" by simp
      from nights_loop_Inr [OF p] have p': "pairs' = pairs @ emitted m opts cur" .
      from c have c': "cur' = cur + step" by (simp add: date_plus_Inr)
      from grouped_step [OF inv s] p' c' have "grouped m opts cur' pairs'" by simp
      with 1(1) [OF call] s y show ?thesis by blast
    qed
  qed
qed

text \<open>The two ways \<open>generate_date_pairs\<close> returns a sequence of pairs.\<close>

lemma generate_date_pairs_Inr:
  assumes "generate_date_pairs config today = Some (Inr (pairs, start, max_date))"
  shows "max_date = today + MAX_DAYS_AHEAD \<and> start = date_from config \<and>
         (pairs = [] \<and> effective_start config today > effective_end config today \<or>
          effective_start config today \<le> effective_end config today \<and>
          departure_loop (sample_step config) max_date (effective_end config today)
            (nights_options config) (effective_start config today) [] = Some (Inr pairs))"
proof -
  from assms obtain m where m: "date_plus today MAX_DAYS_AHEAD = Inr m"
    by (cases "date_plus today MAX_DAYS_AHEAD") (auto simp: generate_date_pairs_def)
  from assms m obtain t where t: "date_plus today 1 = Inr t"
    by (cases "date_plus today 1") (auto simp: generate_date_pairs_def)
  from m have m': "m = today + MAX_DAYS_AHEAD" by (simp add: date_plus_Inr)
  from t have t': "t = today + 1" by (simp add: date_plus_Inr)
  show ?thesis
  proof (cases "effective_start config today > effective_end config today")
    case True
    with assms m t m' t' show ?thesis
      by (simp add: generate_date_pairs_def effective_start_def effective_end_def Let_def)
  next
    case False
    with assms m t m' t' show ?thesis
      by (auto simp: generate_date_pairs_def effective_start_def effective_end_def Let_def
          split: option.splits sum.splits)
  qed
qed

section \<open>The orchestrator\<close>

subsection \<open>The offers of one search\<close>

lemma listing_offer_Cons: "listing_offer c fs x \<Longrightarrow> listing_offer c (f # fs) x"
  by (auto simp: listing_offer_def)

lemma process_flights_Inr:
  "process_flights e c orig dep ret n fs acc = Inr out \<Longrightarrow>
   \<exists>new. out = acc @ new \<and> (\<forall>x \<in> set new. listing_offer c fs x)"
proof (induction fs arbitrary: acc)
  case Nil
  then show ?case by simp
next
  case (Cons f fs)
  show ?case
  proof (cases "parse_price (sf_price f)")
    case None
    with Cons.prems have "process_flights e c orig dep ret n fs acc = Inr out" by simp
    from Cons.IH [OF this] show ?thesis by (auto intro: listing_offer_Cons)
  next
    case (Some p)
    with Cons.prems have a: "adults c \<noteq> 0" by (auto split: if_splits)
    show ?thesis
    proof (cases "parse_stops (sf_stops f) > max_stops c")
      case True
      with Cons.prems Some a have "process_flights e c orig dep ret n fs acc = Inr out"
        by (simp add: Let_def)
      from Cons.IH [OF this] show ?thesis by (auto intro: listing_offer_Cons)
    next
      case False
      define x where "x = \<lparr>price_total = p, price_pp = py_round2 (float_div p (adults c)),
                   dep_date = dep, ret_date = ret,
                   dep_airport = get_airport_name orig,
                   dest_airport = get_airport_name (destination c),
                   origin_code = orig, airline = sf_airline f,
                   departure = sf_departure f, arrival = sf_arrival f,
                   duration = sf_duration f, stops = parse_stops (sf_stops f),
                   stops_detail = (if sf_stops f = [] then ''Diretto'' else sf_stops f),
                   nights = n, link = build_url e (round_trip_query c orig dep ret),
                   ret_info = None\<rparr>"
      from Cons.prems Some a False
      have "process_flights e c orig dep ret n fs (acc @ [x]) = Inr out"
        by (simp add: Let_def x_def)
      from Cons.IH [OF this] obtain new where
        new: "out = (acc @ [x]) @ new" "\<forall>x \<in> set new. listing_offer c fs x" by blast
      from Some a False have "listing_offer c (f # fs) x"
        by (simp add: listing_offer_def x_def)
      with new have "out = acc @ (x # new) \<and> (\<forall>y \<in> set (x # new). listing_offer c (f # fs) y)"
        by (auto intro: listing_offer_Cons)
      then show ?thesis by blast
    qed
  qed
qed

subsection \<open>Removal of duplicates and ranking\<close>

lemma remove_duplicates_acc:
  "remove_duplicates seen acc fs = acc @ remove_duplicates seen [] fs"
proof (induction fs arbitrary: seen acc)
  case Nil
  then show ?case by simp
next
  case (Cons f fs)
  show ?case
  proof (cases "key_of f \<in> seen")
    case True
    with Cons.IH [of seen acc] show ?thesis by simp
  next
    case False
    with Cons.IH [of "insert (key_of f) seen" "acc @ [f]"]
      Cons.IH [of "insert (key_of f) seen" "[f]"]
    show ?thesis by simp
  qed
qed

lemma remove_duplicates_Cons:
  "remove_duplicates seen [] (f # fs) =
     (if key_of f \<in> seen then remove_duplicates seen [] fs
      else f # remove_duplicates (insert (key_of f) seen) [] fs)"
  using remove_duplicates_acc [of "insert (key_of f) seen" "[f]" fs] by simp

lemma remove_duplicates_filter:
  "filter (\<lambda>g. key_of g = k) (remove_duplicates seen [] fs) =
     (if k \<in> seen then []
      else case find (\<lambda>g. key_of g = k) fs of None \<Rightarrow> [] | Some g \<Rightarrow> [g])"
proof (induction fs arbitrary: seen)
  case Nil
  then show ?case by simp
next
  case (Cons f fs)
  show ?case
    by (simp add: remove_duplicates_Cons Cons.IH del: remove_duplicates.simps)
qed

lemma remove_duplicates_subseq: "subseq (remove_duplicates seen [] fs) fs"
  by (induction fs arbitrary: seen)
    (auto simp: remove_duplicates_Cons simp del: remove_duplicates.simps(2))

lemma remove_duplicates_keys:
  "set (map key_of (remove_duplicates seen [] fs)) = set (map key_of fs) - seen"
  by (induction fs arbitrary: seen)
    (auto simp: remove_duplicates_Cons simp del: remove_duplicates.simps(2))

lemma remove_duplicates_distinct: "distinct (map key_of (remove_duplicates seen [] fs))"
proof (induction fs arbitrary: seen)
  case Nil
  then show ?case by simp
next
  case (Cons f fs)
  have "key_of f \<notin> set (map key_of (remove_duplicates (insert (key_of f) seen) [] fs))"
    by (simp only: remove_duplicates_keys) simp
  with Cons.IH show ?case
    by (simp add: remove_duplicates_Cons del: remove_duplicates.simps(2))
qed

lemma rank_properties:
  "sorted (map price_pp (rank fs)) \<and>
   distinct (map key_of (rank fs)) \<and>
   (\<forall>k. filter (\<lambda>g. key_of g = k) (rank fs) =
          (case find (\<lambda>g. key_of g = k) fs of None \<Rightarrow> [] | Some g \<Rightarrow> [g])) \<and>
   (\<forall>p. filter (\<lambda>g. price_pp g = p) (rank fs) =
          filter (\<lambda>g. price_pp g = p) (remove_duplicates {} [] fs)) \<and>
   subseq (remove_duplicates {} [] fs) fs"
proof (intro conjI allI)
  show "sorted (map price_pp (rank fs))" by (simp add: rank_def)
next
  have "distinct (map key_of (remove_duplicates {} [] fs))"
    by (rule remove_duplicates_distinct)
  then have "distinct (remove_duplicates {} [] fs)" and
    "inj_on key_of (set (remove_duplicates {} [] fs))"
    by (simp_all add: distinct_map)
  then show "distinct (map key_of (rank fs))"
    by (simp add: rank_def distinct_map)
next
  fix k
  show "filter (\<lambda>g. key_of g = k) (rank fs) =
          (case find (\<lambda>g. key_of g = k) fs of None \<Rightarrow> [] | Some g \<Rightarrow> [g])"
    by (simp add: rank_def filter_sort remove_duplicates_filter split: option.split)
next
  fix p
  show "filter (\<lambda>g. price_pp g = p) (rank fs) =
          filter (\<lambda>g. price_pp g = p) (remove_duplicates {} [] fs)"
    by (simp add: rank_def sort_key_stable)
next
  show "subseq (remove_duplicates {} [] fs) fs" by (rule remove_duplicates_subseq)
qed

subsection \<open>The dictionary of return legs\<close>

lemma all_none_update: "all_none d \<Longrightarrow> all_none (AList.update k None d)"
  by (simp add: all_none_def AList.update_conv')

lemma all_none_lookup: "all_none d \<Longrightarrow> k \<in> set (map fst d) \<Longrightarrow> map_of d k = Some None"
proof -
  assume a: "all_none d" and k: "k \<in> set (map fst d)"
  from k obtain v where "map_of d k = Some v"
    by (cases "map_of d k") (auto simp: map_of_eq_None_iff)
  with a show ?thesis by (auto simp: all_none_def)
qed

lemma collect_origins_props:
  "distinct (map fst d) \<Longrightarrow> all_none d \<Longrightarrow>
   distinct (map fst (collect_origins ret origs d)) \<and> all_none (collect_origins ret origs d) \<and>
   set (map fst (collect_origins ret origs d)) = set (map fst d) \<union> {ret} \<times> set origs"
proof (induction origs arbitrary: d)
  case Nil
  then show ?case by simp
next
  case (Cons orig origs)
  have "distinct (map fst (AList.update (ret, orig) None d))"
    using Cons.prems(1) by (rule AList.distinct_update)
  moreover have "all_none (AList.update (ret, orig) None d)"
    using Cons.prems(2) by (rule all_none_update)
  ultimately have "distinct (map fst (collect_origins ret origs (AList.update (ret, orig) None d))) \<and>
    all_none (collect_origins ret origs (AList.update (ret, orig) None d)) \<and>
    set (map fst (collect_origins ret origs (AList.update (ret, orig) None d))) =
      set (map fst (AList.update (ret, orig) None d)) \<union> {ret} \<times> set origs"
    by (rule Cons.IH)
  moreover have "set (map fst (AList.update (ret, orig) None d)) = insert (ret, orig) (set (map fst d))"
    using AList.dom_update [of "(ret, orig)" None d] by simp
  ultimately show ?case by auto
qed

lemma collect_returns_props:
  "distinct (map fst d) \<Longrightarrow> all_none d \<Longrightarrow>
   distinct (map fst (collect_returns dps origs d)) \<and> all_none (collect_returns dps origs d) \<and>
   set (map fst (collect_returns dps origs d)) =
     set (map fst d) \<union> (\<lambda>dp. fst (snd dp)) ` set dps \<times> set origs"
proof (induction dps arbitrary: d)
  case Nil
  then show ?case by simp
next
  case (Cons dp dps)
  obtain dep ret n where dp: "dp = (dep, ret, n)" by (cases dp) auto
  from collect_origins_props [OF Cons.prems, of ret origs]
  have 1: "distinct (map fst (collect_origins ret origs d))"
    and 2: "all_none (collect_origins ret origs d)"
    and 3: "set (map fst (collect_origins ret origs d)) = set (map fst d) \<union> {ret} \<times> set origs"
    by simp_all
  from Cons.IH [OF 1 2] 3 dp show ?case by auto
qed

lemma return_keys_props:
  "distinct (return_keys dps origs) \<and>
   set (return_keys dps origs) = (\<lambda>dp. fst (snd dp)) ` set dps \<times> set origs \<and>
   (\<forall>k \<in> set (return_keys dps origs). map_of (collect_returns dps origs []) k = Some None)"
proof -
  have "distinct (map fst ([] :: ((date \<times> string) \<times> return_info option) list))" by simp
  moreover have "all_none ([] :: ((date \<times> string) \<times> return_info option) list)"
    by (simp add: all_none_def)
  ultimately have "distinct (map fst (collect_returns dps origs [])) \<and>
    all_none (collect_returns dps origs []) \<and>
    set (map fst (collect_returns dps origs [])) =
     set (map fst ([] :: ((date \<times> string) \<times> return_info option) list)) \<union>
       (\<lambda>dp. fst (snd dp)) ` set dps \<times> set origs"
    by (rule collect_returns_props)
  then have d: "distinct (map fst (collect_returns dps origs []))"
    and a: "all_none (collect_returns dps origs [])"
    and s: "set (map fst (collect_returns dps origs [])) =
      (\<lambda>dp. fst (snd dp)) ` set dps \<times> set origs"
    by simp_all
  have "map_of (collect_returns dps origs []) k = Some None"
    if "k \<in> set (return_keys dps origs)" for k
    using all_none_lookup [OF a] that unfolding return_keys_def by blast
  with d s show ?thesis unfolding return_keys_def by blast
qed

subsection \<open>Phase 1\<close>

lemma count_raised_append:
  "count_raised e n (qs @ rs) = count_raised e n qs + count_raised e (n + length qs) rs"
  by (induction qs arbitrary: n) simp_all

lemma run_search_None: "run_search e n q = None \<longleftrightarrow> isl (search_flights e n q)"
  by (cases "search_flights e n q") (simp_all add: run_search_def)

lemma outbound_search_Inr:
  assumes "outbound_search e c orig dp st = Inr st'"
  shows "issued st' = issued st @ [round_trip_query c orig (fst dp) (fst (snd dp))] \<and>
         search_count st' = search_count st + 1 \<and>
         errors st' = errors st +
           count_raised e (length (issued st)) [round_trip_query c orig (fst dp) (fst (snd dp))] \<and>
         unique_returns st' = unique_returns st \<and>
         (\<exists>new. all_flights st' = all_flights st @ new)"
proof (cases "run_search e (length (issued st)) (round_trip_query c orig (fst dp) (fst (snd dp)))")
  case None
  with assms have "st' = st\<lparr>search_count := search_count st + 1,
      issued := issued st @ [round_trip_query c orig (fst dp) (fst (snd dp))],
      errors := errors st + 1\<rparr>"
    by (auto simp: outbound_search_def Let_def)
  with None show ?thesis by (simp add: run_search_None)
next
  case (Some r)
  then have ok: "\<not> isl (search_flights e (length (issued st))
      (round_trip_query c orig (fst dp) (fst (snd dp))))"
    using run_search_None [of e "length (issued st)"
        "round_trip_query c orig (fst dp) (fst (snd dp))"] by simp
  show ?thesis
  proof (cases "flights r = []")
    case True
    with assms Some have "st' = st\<lparr>search_count := search_count st + 1,
      issued := issued st @ [round_trip_query c orig (fst dp) (fst (snd dp))]\<rparr>"
      by (auto simp: outbound_search_def Let_def)
    with ok show ?thesis by simp
  next
    case False
    with assms Some obtain found where
      "st' = st\<lparr>search_count := search_count st + 1,
      issued := issued st @ [round_trip_query c orig (fst dp) (fst (snd dp))],
      all_flights := all_flights st @ found\<rparr>"
      by (auto simp: outbound_search_def Let_def split: sum.splits)
    with ok show ?thesis by simp
  qed
qed

lemma process_flights_total:
  "adults c \<noteq> 0 \<Longrightarrow> \<exists>out. process_flights e c orig dep ret n fs acc = Inr out"
  by (induction fs arbitrary: acc) (auto simp: Let_def split: option.splits)

lemma outbound_search_total:
  assumes "adults c \<noteq> 0"
  shows "\<exists>st'. outbound_search e c orig dp st = Inr st'"
proof (cases "run_search e (length (issued st)) (round_trip_query c orig (fst dp) (fst (snd dp)))")
  case None
  then show ?thesis by (simp add: outbound_search_def Let_def)
next
  case (Some r)
  from process_flights_total [OF assms]
  obtain out where "process_flights e c orig (fst dp) (fst (snd dp)) (snd (snd dp)) (flights r) [] = Inr out"
    by blast
  with Some show ?thesis
    by (simp add: outbound_search_def Let_def process_results_def)
qed

lemma outbound_pairs_Inr:
  "outbound_pairs e c orig dps st = Inr st' \<Longrightarrow>
   issued st' = issued st @ map (\<lambda>dp. round_trip_query c orig (fst dp) (fst (snd dp))) dps \<and>
   search_count st' = search_count st + length dps \<and>
   errors st' = errors st +
     count_raised e (length (issued st))
       (map (\<lambda>dp. round_trip_query c orig (fst dp) (fst (snd dp))) dps) \<and>
   unique_returns st' = unique_returns st"
proof (induction dps arbitrary: st)
  case Nil
  then show ?case by simp
next
  case (Cons dp dps)
  from Cons.prems obtain st1 where 1: "outbound_search e c orig dp st = Inr st1"
    and 2: "outbound_pairs e c orig dps st1 = Inr st'"
    by (cases "outbound_search e c orig dp st") auto
  from outbound_search_Inr [OF 1] Cons.IH [OF 2] show ?case by simp
qed

lemma outbound_pairs_total:
  "adults c \<noteq> 0 \<Longrightarrow> \<exists>st'. outbound_pairs e c orig dps st = Inr st'"
proof (induction dps arbitrary: st)
  case Nil
  then show ?case by simp
next
  case (Cons dp dps)
  from outbound_search_total [OF Cons.prems] obtain st1 where
    "outbound_search e c orig dp st = Inr st1" by blast
  with Cons.IH [OF Cons.prems, of st1] show ?case by simp
qed

lemma outbound_origins_Inr:
  "outbound_origins e c dps origs st = Inr st' \<Longrightarrow>
   issued st' = issued st @
     concat (map (\<lambda>orig. map (\<lambda>dp. round_trip_query c orig (fst dp) (fst (snd dp))) dps) origs) \<and>
   search_count st' = search_count st + length origs * length dps \<and>
   errors st' = errors st +
     count_raised e (length (issued st))
       (concat (map (\<lambda>orig. map (\<lambda>dp. round_trip_query c orig (fst dp) (fst (snd dp))) dps) origs)) \<and>
   unique_returns st' = unique_returns st"
proof (induction origs arbitrary: st)
  case Nil
  then show ?case by simp
next
  case (Cons orig origs)
  from Cons.prems obtain st1 where 1: "outbound_pairs e c orig dps st = Inr st1"
    and 2: "outbound_origins e c dps origs st1 = Inr st'"
    by (cases "outbound_pairs e c orig dps st") auto
  from outbound_pairs_Inr [OF 1] Cons.IH [OF 2] show ?case
    by (simp add: count_raised_append)
qed

lemma outbound_origins_total:
  "adults c \<noteq> 0 \<Longrightarrow> \<exists>st'. outbound_origins e c dps origs st = Inr st'"
proof (induction origs arbitrary: st)
  case Nil
  then show ?case by simp
next
  case (Cons orig origs)
  from outbound_pairs_total [OF Cons.prems] obtain st1 where
    "outbound_pairs e c orig dps st = Inr st1" by blast
  with Cons.IH [OF Cons.prems, of st1] show ?case by simp
qed

subsection \<open>Phase 2\<close>

lemma return_searches_frame:
  "issued (return_searches e c ks st) = issued st @ map (return_query c) ks \<and>
   all_flights (return_searches e c ks st) = all_flights st \<and>
   search_count (return_searches e c ks st) = search_count st \<and>
   errors (return_searches e c ks st) = errors st"
  by (induction ks arbitrary: st) (auto simp: Let_def split: option.splits)

lemma return_searches_other:
  "k \<notin> set ks \<Longrightarrow>
   map_of (unique_returns (return_searches e c ks st)) k = map_of (unique_returns st) k"
  by (induction ks arbitrary: st) (auto simp: Let_def AList.update_conv' split: option.splits)

lemma return_searches_values:
  "distinct ks \<Longrightarrow> \<forall>k \<in> set ks. map_of (unique_returns st) k = Some None \<Longrightarrow> i < length ks \<Longrightarrow>
   map_of (unique_returns (return_searches e c ks st)) (ks ! i) =
     Some (search_return_flights e (length (issued st) + i) c (ks ! i))"
proof (induction ks arbitrary: st i)
  case Nil
  then show ?case by simp
next
  case (Cons k ks)
  define found where "found = search_return_flights e (length (issued st)) c k"
  define st1 where "st1 = (case found of
      None \<Rightarrow> st\<lparr>issued := issued st @ [return_query c k]\<rparr>
    | Some info \<Rightarrow> st\<lparr>issued := issued st @ [return_query c k],
        unique_returns := AList.update k (Some info) (unique_returns st)\<rparr>)"
  have step: "return_searches e c (k # ks) st = return_searches e c ks st1"
    by (simp add: Let_def found_def st1_def split: option.splits)
  have len: "length (issued st1) = Suc (length (issued st))"
    by (simp add: st1_def split: option.splits)
  have at_k: "map_of (unique_returns st1) k = Some found"
    using Cons.prems(2) by (simp add: st1_def AList.update_conv' split: option.splits)
  have rest: "\<forall>k' \<in> set ks. map_of (unique_returns st1) k' = Some None"
    using Cons.prems(1,2) by (auto simp: st1_def AList.update_conv' split: option.splits)
  show ?case
  proof (cases i)
    case 0
    from Cons.prems(1) have "k \<notin> set ks" by simp
    from return_searches_other [OF this, of e c st1] at_k step 0 show ?thesis
      by (simp add: found_def)
  next
    case (Suc j)
    with Cons.prems(3) have j: "j < length ks" by simp
    from Cons.prems(1) have "distinct ks" by simp
    from Cons.IH [OF this rest j] step len Suc show ?thesis by simp
  qed
qed

subsection \<open>The run\<close>

lemma run_searches_Inr:
  assumes "run_searches e c dps = Inr (st, ranked)"
  shows "\<exists>st1. outbound_origins e c dps (origins c) (initial_state dps (origins c)) = Inr st1 \<and>
           st = (return_searches e c (return_keys dps (origins c)) st1)
                  \<lparr>all_flights := map (merge_return (unique_returns st)) (all_flights st1)\<rparr> \<and>
           unique_returns st =
             unique_returns (return_searches e c (return_keys dps (origins c)) st1) \<and>
           unique_returns st1 = collect_returns dps (origins c) [] \<and>
           ranked = rank (all_flights st)"
proof -
  from assms obtain st1 where
    1: "outbound_origins e c dps (origins c) (initial_state dps (origins c)) = Inr st1"
    by (cases "outbound_origins e c dps (origins c) (initial_state dps (origins c))")
      (auto simp: run_searches_def)
  from outbound_origins_Inr [OF 1]
  have u: "unique_returns st1 = collect_returns dps (origins c) []"
    by (simp add: initial_state_def)
  with assms 1 show ?thesis
    by (auto simp: run_searches_def Let_def return_keys_def return_searches_frame)
qed

lemma run_searches_issued:
  assumes "run_searches e c dps = Inr (st, ranked)"
  shows "issued st = outbound_queries c dps @ map (return_query c) (return_keys dps (origins c)) \<and>
         search_count st = length (origins c) * length dps \<and>
         errors st = count_raised e 0 (outbound_queries c dps)"
proof -
  from run_searches_Inr [OF assms] obtain st1 where
    1: "outbound_origins e c dps (origins c) (initial_state dps (origins c)) = Inr st1"
    and 2: "st = (return_searches e c (return_keys dps (origins c)) st1)
                  \<lparr>all_flights := map (merge_return (unique_returns st)) (all_flights st1)\<rparr>"
    by blast
  from outbound_origins_Inr [OF 1]
  have "issued st1 = outbound_queries c dps" "search_count st1 = length (origins c) * length dps"
    "errors st1 = count_raised e 0 (outbound_queries c dps)"
    by (simp_all add: initial_state_def outbound_queries_def)
  moreover from 2 have "issued st = issued (return_searches e c (return_keys dps (origins c)) st1)"
    "search_count st = search_count (return_searches e c (return_keys dps (origins c)) st1)"
    "errors st = errors (return_searches e c (return_keys dps (origins c)) st1)"
    by (metis run_state.select_convs run_state.surjective run_state.update_convs)+
  ultimately show ?thesis by (simp add: return_searches_frame)
qed

text \<open>A completed run of \<open>main\<close> is a run of the searches on the date pairs sampled.\<close>

lemma main_Completed:
  assumes "main e c today = Some (Inr (Completed st ranked))"
  shows "\<exists>dps start max_date.
           generate_date_pairs c today = Some (Inr (dps, start, max_date)) \<and> dps \<noteq> [] \<and>
           run_searches e c dps = Inr (st, ranked)"
  using assms
  by (auto simp: main_def split: option.splits sum.splits prod.splits if_splits)

subsection \<open>The claims on the sampler\<close>

text \<open>
  C5. Whenever \<open>generate_date_pairs\<close> returns, every triple (departure, return, nights)
  it emits has return = departure + nights and return \<le> today + 330 days (the second
  component of the triple is the return date, the third the nights); so no pair whose
  return date exceeds the horizon is emitted.
\<close>

theorem generate_date_pairs_within_horizon:
  assumes "generate_date_pairs config today = Some (Inr (pairs, start, max_date))"
  shows "max_date = today + MAX_DAYS_AHEAD \<and>
         (\<forall>(d, r, n) \<in> set pairs. r = d + n \<and> r \<le> today + MAX_DAYS_AHEAD)"
proof -
  from generate_date_pairs_Inr [OF assms]
  have m: "max_date = today + MAX_DAYS_AHEAD"
    and cases: "pairs = [] \<or>
      departure_loop (sample_step config) max_date (effective_end config today)
        (nights_options config) (effective_start config today) [] = Some (Inr pairs)"
    by auto
  from cases have "\<forall>p \<in> set pairs. fst (snd p) = fst p + snd (snd p) \<and> fst (snd p) \<le> max_date"
  proof
    assume "pairs = []"
    then show ?thesis by simp
  next
    assume "departure_loop (sample_step config) max_date (effective_end config today)
        (nights_options config) (effective_start config today) [] = Some (Inr pairs)"
    from departure_loop_within [OF this] show ?thesis by auto
  qed
  with m show ?thesis by auto
qed

text \<open>The run of the spec's example: today + 1 to today + 10, step 5, nights 3 to 5.\<close>

theorem generate_date_pairs_within_horizon_witness:
  "generate_date_pairs example_config 739923 =
     Some (Inr ([(739924, 739927, 3), (739924, 739929, 5), (739929, 739932, 3),
                 (739929, 739934, 5)], 739924, 740253)) \<and>
   740253 = 739923 + MAX_DAYS_AHEAD \<and>
   list_all (\<lambda>(d, r, n). r = d + n \<and> r \<le> 739923 + MAX_DAYS_AHEAD)
     [(739924, 739927, 3), (739924, 739929, 5), (739929, 739932, 3), (739929, 739934, 5)]"
proof -
  have e: "generate_date_pairs example_config 739923 =
     Some (Inr ([(739924, 739927, 3), (739924, 739929, 5), (739929, 739932, 3),
                 (739929, 739934, 5)], 739924, 740253))"
    by code_simp
  from generate_date_pairs_within_horizon [OF e] e show ?thesis
    by (simp add: list_all_iff)
qed

text \<open>
  C6. When the window clipped to [tomorrow, today + 330] is inverted,
  \<open>generate_date_pairs\<close> returns the empty sequence (with the requested start and the
  last available date), and raises nothing. Today is a date at least 330 days before
  \<open>date.max\<close>.
\<close>

theorem generate_date_pairs_out_of_horizon:
  assumes "1 \<le> today" and "today + MAX_DAYS_AHEAD \<le> MAX_ORDINAL"
    and "effective_start config today > effective_end config today"
  shows "generate_date_pairs config today = Some (Inr ([], date_from config, today + MAX_DAYS_AHEAD))"
  using assms
  by (simp add: generate_date_pairs_def date_plus_def effective_start_def effective_end_def
      MAX_DAYS_AHEAD_def MAX_ORDINAL_def Let_def)

text \<open>The example of the spec: today + 400 to today + 450.\<close>

theorem generate_date_pairs_out_of_horizon_witness:
  "(1::int) \<le> 739923 \<and> 739923 + MAX_DAYS_AHEAD \<le> MAX_ORDINAL \<and>
   effective_start (example_config\<lparr>date_from := 739923 + 400, date_to := 739923 + 450\<rparr>) 739923
     > effective_end (example_config\<lparr>date_from := 739923 + 400, date_to := 739923 + 450\<rparr>) 739923 \<and>
   generate_date_pairs (example_config\<lparr>date_from := 739923 + 400, date_to := 739923 + 450\<rparr>) 739923
     = Some (Inr ([], 739923 + 400, 739923 + 330))"
proof -
  have h: "(1::int) \<le> 739923" "739923 + MAX_DAYS_AHEAD \<le> MAX_ORDINAL"
    "effective_start (example_config\<lparr>date_from := 739923 + 400, date_to := 739923 + 450\<rparr>) 739923
     > effective_end (example_config\<lparr>date_from := 739923 + 400, date_to := 739923 + 450\<rparr>) 739923"
    by (simp_all add: MAX_DAYS_AHEAD_def MAX_ORDINAL_def effective_start_def effective_end_def
        example_config_def)
  from generate_date_pairs_out_of_horizon [OF h] h show ?thesis
    by (simp add: MAX_DAYS_AHEAD_def example_config_def)
qed

lemma nights_of_emitted: "nights_of d (emitted m opts d) = filter (\<lambda>n. d + n \<le> m) opts"
  by (simp add: nights_of_def emitted_def filter_map o_def)

text \<open>
  C7, as the code has it. The sequence is ascending by departure date, and the nights
  values attached to an emitted departure date are, in the order (min, mid, max) of the
  candidate list, those candidates whose return date is within the horizon; the
  candidate list is [min, max], with the integer midpoint between them exactly when
  max - min exceeds 2.
\<close>

theorem generate_date_pairs_order_and_nights:
  assumes "generate_date_pairs config today = Some (Inr (pairs, start, max_date))"
  shows "sorted (map fst pairs) \<and>
         (\<forall>d \<in> set (map fst pairs).
            nights_of d pairs =
              filter (\<lambda>n. d + n \<le> today + MAX_DAYS_AHEAD) (nights_options config)) \<and>
         nights_options config =
           (if nights_max config - nights_min config > 2
            then [nights_min config, (nights_min config + nights_max config) div 2,
                  nights_max config]
            else [nights_min config, nights_max config])"
proof -
  from generate_date_pairs_Inr [OF assms]
  have m: "max_date = today + MAX_DAYS_AHEAD"
    and cases: "pairs = [] \<or>
      effective_start config today \<le> effective_end config today \<and>
      departure_loop (sample_step config) max_date (effective_end config today)
        (nights_options config) (effective_start config today) [] = Some (Inr pairs)"
    by auto
  from cases have "\<exists>c. grouped max_date (nights_options config) c pairs"
  proof
    assume "pairs = []"
    then show ?thesis by (simp add: grouped_def)
  next
    assume a: "effective_start config today \<le> effective_end config today \<and>
      departure_loop (sample_step config) max_date (effective_end config today)
        (nights_options config) (effective_start config today) [] = Some (Inr pairs)"
    then have loop: "departure_loop (sample_step config) max_date (effective_end config today)
        (nights_options config) (effective_start config today) [] = Some (Inr pairs)" ..
    have "1 \<le> sample_step config"
    proof (rule ccontr)
      assume "\<not> 1 \<le> sample_step config"
      with departure_loop_no_return [OF loop] a show False by simp
    qed
    moreover have "grouped max_date (nights_options config) (effective_start config today) []"
      by (simp add: grouped_def)
    ultimately show ?thesis using departure_loop_grouped [OF loop] by blast
  qed
  then obtain c where g: "grouped max_date (nights_options config) c pairs" ..
  then have 1: "sorted (map fst pairs)" by (simp add: grouped_def)
  have 2: "nights_of d pairs = filter (\<lambda>n. d + n \<le> today + MAX_DAYS_AHEAD) (nights_options config)"
    if "d \<in> set (map fst pairs)" for d
  proof -
    from that g have "filter (\<lambda>p. fst p = d) pairs = emitted max_date (nights_options config) d"
      unfolding grouped_def by auto
    then have "nights_of d pairs = nights_of d (emitted max_date (nights_options config) d)"
      by (simp add: nights_of_def filter_emitted_same)
    with m show ?thesis by (simp add: nights_of_emitted)
  qed
  from 1 2 show ?thesis by (simp add: nights_options_def)
qed

theorem generate_date_pairs_order_and_nights_witness:
  "generate_date_pairs example_config 739923 =
     Some (Inr ([(739924, 739927, 3), (739924, 739929, 5), (739929, 739932, 3),
                 (739929, 739934, 5)], 739924, 740253)) \<and>
   sorted (map fst [(739924 :: int, 739927 :: int, 3 :: int), (739924, 739929, 5),
                    (739929, 739932, 3), (739929, 739934, 5)]) \<and>
   nights_of 739929 [(739924, 739927, 3), (739924, 739929, 5), (739929, 739932, 3),
                     (739929, 739934, 5)] = [3, 5] \<and>
   nights_options example_config = [3, 5]"
proof -
  have e: "generate_date_pairs example_config 739923 =
     Some (Inr ([(739924, 739927, 3), (739924, 739929, 5), (739929, 739932, 3),
                 (739929, 739934, 5)], 739924, 740253))"
    by code_simp
  from generate_date_pairs_order_and_nights [OF e] e show ?thesis
    by (simp add: example_config_def MAX_DAYS_AHEAD_def)
qed

text \<open>
  C7 as stated fails near the horizon: with the window starting 326 days ahead and
  nights 3 and 5, the one departure date emitted carries the nights value 3 alone, since
  the return date of the 5-night stay is past the horizon.
\<close>

theorem generate_date_pairs_nights_counterexample:
  "generate_date_pairs (example_config\<lparr>date_from := 740249, date_to := 740323\<rparr>) 739923 =
     Some (Inr ([(740249, 740252, 3)], 740249, 740253)) \<and>
   nights_of 740249 [(740249, 740252, 3)] = [3] \<and>
   nights_options (example_config\<lparr>date_from := 740249, date_to := 740323\<rparr>) = [3, 5] \<and>
   set (nights_of 740249 [(740249, 740252, 3)])
     \<noteq> set (nights_options (example_config\<lparr>date_from := 740249, date_to := 740323\<rparr>))"
proof -
  have "generate_date_pairs (example_config\<lparr>date_from := 740249, date_to := 740323\<rparr>) 739923 =
     Some (Inr ([(740249, 740252, 3)], 740249, 740253))"
    by code_simp
  then show ?thesis
    by (simp add: nights_of_def nights_options_def example_config_def)
qed

text \<open>
  C10, as the code has it. With a step of at least 1 \<open>generate_date_pairs\<close> terminates,
  for every configuration and day. The code does not check the step, and with a step of
  0 or less and a non-empty clipped window it never returns a sequence: the next
  departure date is not later than the current one. With step 0 the loop runs forever
  (where the candidate return dates of the first departure date are dates); with a
  negative step the walk moves backwards until it leaves the range of dates, and the
  call ends in OverflowError.
\<close>

theorem generate_date_pairs_termination:
  "(1 \<le> sample_step config \<longrightarrow> generate_date_pairs config today \<noteq> None) \<and>
   (sample_step config \<le> 0 \<and> window_open config today \<longrightarrow>
      (\<forall>r. generate_date_pairs config today \<noteq> Some (Inr r)) \<and>
      (\<forall>d d'. date_plus d (sample_step config) = Inr d' \<longrightarrow> d' \<le> d)) \<and>
   (sample_step config = 0 \<and> window_open config today \<and> nights_in_range config today \<longrightarrow>
      generate_date_pairs config today = None) \<and>
   (sample_step config < 0 \<and> window_open config today \<longrightarrow>
      generate_date_pairs config today = Some (Inl OverflowError))"
proof (intro conjI impI)
  assume s: "1 \<le> sample_step config"
  show "generate_date_pairs config today \<noteq> None"
  proof (cases "date_plus today MAX_DAYS_AHEAD")
    case (Inl e)
    then show ?thesis by (simp add: generate_date_pairs_def)
  next
    case m: (Inr m)
    show ?thesis
    proof (cases "date_plus today 1")
      case (Inl e)
      with m show ?thesis by (simp add: generate_date_pairs_def)
    next
      case t: (Inr t)
      from departure_loop_terminates [OF s]
      obtain r where "departure_loop (sample_step config) m (min (date_to config) m)
        (nights_options config) (max (date_from config) t) [] = Some r" by blast
      with m t show ?thesis
        by (simp add: generate_date_pairs_def Let_def split: sum.splits)
    qed
  qed
next
  assume a: "sample_step config \<le> 0 \<and> window_open config today"
  show "\<forall>r. generate_date_pairs config today \<noteq> Some (Inr r)"
  proof (intro allI notI)
    fix r
    assume "generate_date_pairs config today = Some (Inr r)"
    then have "generate_date_pairs config today = Some (Inr (fst r, fst (snd r), snd (snd r)))"
      by simp
    from generate_date_pairs_Inr [OF this] a
    have "departure_loop (sample_step config) (snd (snd r)) (effective_end config today)
            (nights_options config) (effective_start config today) [] = Some (Inr (fst r))"
      by (auto simp: window_open_def)
    from departure_loop_no_return [OF this] a show False
      by (simp add: window_open_def)
  qed
next
  assume a: "sample_step config \<le> 0 \<and> window_open config today"
  then show "\<forall>d d'. date_plus d (sample_step config) = Inr d' \<longrightarrow> d' \<le> d"
    by (auto dest: date_plus_Inr)
next
  assume a: "sample_step config = 0 \<and> window_open config today \<and> nights_in_range config today"
  then have s: "sample_step config = 0" and t: "1 \<le> today"
    and h: "today + MAX_DAYS_AHEAD \<le> MAX_ORDINAL"
    and w: "effective_start config today \<le> effective_end config today"
    and n: "\<forall>n \<in> set (nights_options config). \<bar>n\<bar> \<le> 999999999 \<and>
              1 \<le> effective_start config today + n \<and>
              effective_start config today + n \<le> MAX_ORDINAL"
    by (simp_all add: window_open_def nights_in_range_def list_all_iff)
  from t have lo: "1 \<le> effective_start config today" by (simp add: effective_start_def)
  from w h have hi: "effective_start config today \<le> MAX_ORDINAL"
    by (simp add: effective_end_def)
  from departure_loop_diverges [OF w lo hi n]
  have "departure_loop 0 (today + MAX_DAYS_AHEAD) (effective_end config today)
          (nights_options config) (effective_start config today) [] = None" .
  moreover from t h have "date_plus today MAX_DAYS_AHEAD = Inr (today + MAX_DAYS_AHEAD)"
    and "date_plus today 1 = Inr (today + 1)"
    by (simp_all add: date_plus_def MAX_DAYS_AHEAD_def MAX_ORDINAL_def)
  moreover from w have "\<not> max (date_from config) (today + 1)
      > min (date_to config) (today + MAX_DAYS_AHEAD)"
    unfolding effective_start_def effective_end_def by linarith
  ultimately show "generate_date_pairs config today = None"
    using s by (simp add: generate_date_pairs_def effective_start_def effective_end_def Let_def)
next
  assume a: "sample_step config < 0 \<and> window_open config today"
  then have s: "sample_step config < 0" and t: "1 \<le> today"
    and h: "today + MAX_DAYS_AHEAD \<le> MAX_ORDINAL"
    and w: "effective_start config today \<le> effective_end config today"
    by (simp_all add: window_open_def)
  from departure_loop_backwards [OF s w]
  obtain e where l: "departure_loop (sample_step config) (today + MAX_DAYS_AHEAD)
      (effective_end config today) (nights_options config) (effective_start config today) []
      = Some (Inl e)" by blast
  from departure_loop_Inl [OF l] have "e = OverflowError" by simp
  with l have "departure_loop (sample_step config) (today + MAX_DAYS_AHEAD)
      (effective_end config today) (nights_options config) (effective_start config today) []
      = Some (Inl OverflowError)" by simp
  moreover from t h have "date_plus today MAX_DAYS_AHEAD = Inr (today + MAX_DAYS_AHEAD)"
    and "date_plus today 1 = Inr (today + 1)"
    by (simp_all add: date_plus_def MAX_DAYS_AHEAD_def MAX_ORDINAL_def)
  moreover from w have "\<not> max (date_from config) (today + 1)
      > min (date_to config) (today + MAX_DAYS_AHEAD)"
    unfolding effective_start_def effective_end_def by linarith
  ultimately show "generate_date_pairs config today = Some (Inl OverflowError)"
    by (simp add: generate_date_pairs_def effective_start_def effective_end_def Let_def)
qed

text \<open>Steps 5, 0 and -1 on the example window.\<close>

theorem generate_date_pairs_termination_witness:
  "generate_date_pairs example_config 739923 \<noteq> None \<and>
   generate_date_pairs (example_config\<lparr>sample_every_n_days := Some 0\<rparr>) 739923 = None \<and>
   generate_date_pairs (example_config\<lparr>sample_every_n_days := Some (- 1)\<rparr>) 739923
     \<noteq> Some (Inr ([], 739924, 740253)) \<and>
   generate_date_pairs (example_config\<lparr>sample_every_n_days := Some (- 1)\<rparr>) 739923
     = Some (Inl OverflowError)"
  using generate_date_pairs_termination [of example_config 739923]
    generate_date_pairs_termination [of "example_config\<lparr>sample_every_n_days := Some 0\<rparr>" 739923]
    generate_date_pairs_termination [of "example_config\<lparr>sample_every_n_days := Some (- 1)\<rparr>" 739923]
  by (simp add: example_config_def sample_step_def window_open_def nights_in_range_def
      nights_options_def effective_start_def effective_end_def MAX_DAYS_AHEAD_def MAX_ORDINAL_def)

text \<open>
  C10 as stated fails in its second half: a step of at least 1 is not necessary for
  termination. With step -999999999 the first advance of the walk raises OverflowError
  and the call ends. (Nor does a step of at least 1 make the call return a sequence: with
  nights up to 4000000 the date arithmetic of the inner loop raises OverflowError.)
\<close>

theorem generate_date_pairs_termination_counterexample:
  "generate_date_pairs (example_config\<lparr>sample_every_n_days := Some (- 999999999)\<rparr>) 739923
     = Some (Inl OverflowError) \<and>
   generate_date_pairs (example_config\<lparr>nights_max := 4000000\<rparr>) 739923
     = Some (Inl OverflowError)"
  by code_simp

subsection \<open>The claims on the orchestrator\<close>

lemma py_round2_spec:
  "\<exists>k. \<bar>of_int k / 100 - x\<bar> \<le> 1 / 200 \<and> nearest64 (of_int k / 100) (py_round2 x)"
proof -
  from rne_half [of "x * 100"]
  have "\<bar>of_int (rne (x * 100)) / 100 - x\<bar> \<le> 1 / 200" by (simp add: abs_if split: if_splits)
  moreover have "nearest64 (of_int (rne (x * 100)) / 100) (py_round2 x)"
    unfolding py_round2_def by (rule rd64_nearest)
  ultimately show ?thesis by blast
qed

lemma float_div_spec:
  "\<exists>a. nearest64 (of_int n) a \<and> (\<bar>n\<bar> < 2 ^ 53 \<longrightarrow> a = of_int n) \<and>
       nearest64 (x / a) (float_div x n)"
proof -
  have 1: "nearest64 (of_int n) (rd64 (of_int n))" by (rule rd64_nearest)
  have 2: "rd64 (of_int n) = of_int n" if "\<bar>n\<bar> < 2 ^ 53"
  proof -
    from that have "is_binary64 (of_int n)"
      unfolding is_binary64_def by (intro exI [of _ n] exI [of _ 0]) simp
    then show ?thesis using 1 by (rule nearest64_exact)
  qed
  have 3: "nearest64 (x / rd64 (of_int n)) (float_div x n)"
    unfolding float_div_def by (rule rd64_nearest)
  from 1 2 3 show ?thesis by blast
qed

text \<open>
  C8. Every offer \<open>process_results\<close> produces comes from a listing whose price parses,
  its \<open>price_total\<close> is that price, and its \<open>price_pp\<close> is \<open>price_total\<close> divided by the
  configured number of adults, rounded to 2 decimals, in binary64 arithmetic: the number
  of adults as a float \<open>a\<close> (the number itself below \<open>2^53\<close>), the quotient \<open>q\<close> a float
  nearest to \<open>price_total / a\<close>, a decimal \<open>k / 100\<close> within half a hundredth of \<open>q\<close>, and
  \<open>price_pp\<close> a float nearest to that decimal. (With no adults the division raises
  ZeroDivisionError and no offer is produced.)
\<close>

theorem process_results_price_pp:
  assumes "process_results e c result orig dep ret n = Inr offers"
  shows "\<forall>x \<in> set offers.
           adults c \<noteq> 0 \<and>
           price_pp x = py_round2 (float_div (price_total x) (adults c)) \<and>
           (\<exists>a q k. nearest64 (of_int (adults c)) a \<and>
                    (\<bar>adults c\<bar> < 2 ^ 53 \<longrightarrow> a = of_int (adults c)) \<and>
                    nearest64 (price_total x / a) q \<and>
                    \<bar>of_int k / 100 - q\<bar> \<le> 1 / 200 \<and>
                    nearest64 (of_int k / 100) (price_pp x)) \<and>
           (\<exists>r f. result = Some r \<and> f \<in> set (flights r) \<and>
                  parse_price (sf_price f) = Some (price_total x))"
proof
  fix x
  assume x: "x \<in> set offers"
  have l: "\<exists>r. result = Some r \<and> listing_offer c (flights r) x"
  proof (cases result)
    case None
    with assms x show ?thesis by (simp add: process_results_def)
  next
    case (Some r)
    show ?thesis
    proof (cases "flights r = []")
      case True
      with assms Some x show ?thesis by (simp add: process_results_def)
    next
      case False
      with assms Some have "process_flights e c orig dep ret n (flights r) [] = Inr offers"
        by (simp add: process_results_def)
      from process_flights_Inr [OF this] Some x show ?thesis by auto
    qed
  qed
  then obtain r where r: "result = Some r" and lo: "listing_offer c (flights r) x" by blast
  from lo have a: "adults c \<noteq> 0"
    and pp: "price_pp x = py_round2 (float_div (price_total x) (adults c))"
    and f: "\<exists>f \<in> set (flights r). parse_price (sf_price f) = Some (price_total x)"
    by (auto simp: listing_offer_def)
  from float_div_spec [of "adults c" "price_total x"] obtain a' where
    a': "nearest64 (of_int (adults c)) a'" "\<bar>adults c\<bar> < 2 ^ 53 \<longrightarrow> a' = of_int (adults c)"
      "nearest64 (price_total x / a') (float_div (price_total x) (adults c))"
    by blast
  from py_round2_spec [of "float_div (price_total x) (adults c)"] pp obtain k where
    k: "\<bar>of_int k / 100 - float_div (price_total x) (adults c)\<bar> \<le> 1 / 200"
      "nearest64 (of_int k / 100) (price_pp x)"
    by auto
  from a' k have "\<exists>a q k. nearest64 (of_int (adults c)) a \<and>
                    (\<bar>adults c\<bar> < 2 ^ 53 \<longrightarrow> a = of_int (adults c)) \<and>
                    nearest64 (price_total x / a) q \<and>
                    \<bar>of_int k / 100 - q\<bar> \<le> 1 / 200 \<and>
                    nearest64 (of_int k / 100) (price_pp x)"
    by blast
  with a pp r f show "adults c \<noteq> 0 \<and>
           price_pp x = py_round2 (float_div (price_total x) (adults c)) \<and>
           (\<exists>a q k. nearest64 (of_int (adults c)) a \<and>
                    (\<bar>adults c\<bar> < 2 ^ 53 \<longrightarrow> a = of_int (adults c)) \<and>
                    nearest64 (price_total x / a) q \<and>
                    \<bar>of_int k / 100 - q\<bar> \<le> 1 / 200 \<and>
                    nearest64 (of_int k / 100) (price_pp x)) \<and>
           (\<exists>r f. result = Some r \<and> f \<in> set (flights r) \<and>
                  parse_price (sf_price f) = Some (price_total x))"
    by blast
qed

text \<open>One listing at 1,200 euros for 7 adults: 171.43 per person, as the float nearest to
  it.\<close>

theorem process_results_price_pp_witness:
  "(case process_results example_env (example_config\<lparr>adults := 7\<rparr>)
           (Some \<lparr>flights = [\<lparr>sf_airline = ''ITA Airways'', sf_departure = ''10:00'',
                                sf_arrival = ''20:00'', sf_duration = ''10 hr'',
                                sf_stops = ''Nonstop'', sf_price = euro @ ''1,200''\<rparr>],
                   raw_html = ''''\<rparr>) ''MXP'' 739924 739927 3 of
      Inr offers \<Rightarrow>
        map price_total offers = [1200] \<and> map price_pp offers = [rd64 (17143 / 100)] \<and>
        \<bar>rd64 (17143 / 100) - 17143 / 100\<bar> < 1 / 10 ^ 13 \<and>
        list_all (\<lambda>x. price_pp x = py_round2 (float_div (price_total x) 7)) offers
    | Inl err \<Rightarrow> False)"
proof -
  have "(case process_results example_env (example_config\<lparr>adults := 7\<rparr>)
           (Some \<lparr>flights = [\<lparr>sf_airline = ''ITA Airways'', sf_departure = ''10:00'',
                                sf_arrival = ''20:00'', sf_duration = ''10 hr'',
                                sf_stops = ''Nonstop'', sf_price = euro @ ''1,200''\<rparr>],
                   raw_html = ''''\<rparr>) ''MXP'' 739924 739927 3 of
      Inr offers \<Rightarrow>
        map price_total offers = [1200] \<and> map price_pp offers = [rd64 (17143 / 100)] \<and>
        \<bar>rd64 (17143 / 100) - 17143 / 100\<bar> < 1 / 10 ^ 13
    | Inl err \<Rightarrow> False)"
    by code_simp
  then obtain offers where
    e: "process_results example_env (example_config\<lparr>adults := 7\<rparr>)
           (Some \<lparr>flights = [\<lparr>sf_airline = ''ITA Airways'', sf_departure = ''10:00'',
                                sf_arrival = ''20:00'', sf_duration = ''10 hr'',
                                sf_stops = ''Nonstop'', sf_price = euro @ ''1,200''\<rparr>],
                   raw_html = ''''\<rparr>) ''MXP'' 739924 739927 3 = Inr offers"
    and v: "map price_total offers = [1200]" "map price_pp offers = [rd64 (17143 / 100)]"
      "\<bar>rd64 (17143 / 100) - 17143 / 100\<bar> < 1 / 10 ^ 13"
    by (auto split: sum.splits)
  from process_results_price_pp [OF e]
  have "list_all (\<lambda>x. price_pp x = py_round2 (float_div (price_total x) 7)) offers"
    by (simp add: list_all_iff example_config_def)
  with e v show ?thesis by simp
qed

text \<open>The rounding is that of binary64: 1234.55 / 2 is a float below 617.275 and rounds
  to 617.27, and 100.01 / 2 is one above 50.005 and rounds to 50.01.\<close>

lemma price_pp_binary64_examples:
  "py_round2 (float_div (rd64 (123455 / 100)) 2) = rd64 (61727 / 100) \<and>
   py_round2 (float_div (rd64 (10001 / 100)) 2) = rd64 (5001 / 100)"
  by code_simp

text \<open>
  C2. The final output of a run is the merged offers with duplicates removed and then
  sorted: it is ascending by \<open>price_pp\<close>; no two of its offers share the key
  (\<open>price_total\<close>, \<open>dep_date\<close>, \<open>ret_date\<close>, \<open>dep_airport\<close>, \<open>airline\<close>); the offers of a
  key collapse to the one first seen with that key, whatever their other fields; and the
  offers of equal \<open>price_pp\<close> stand in the order in which they were first seen.
\<close>

theorem run_searches_ranked:
  assumes "run_searches e c dps = Inr (st, ranked)"
  shows "ranked = rank (all_flights st) \<and>
         sorted (map price_pp ranked) \<and>
         distinct (map (\<lambda>g. (price_total g, dep_date g, ret_date g, dep_airport g, airline g))
                     ranked) \<and>
         (\<forall>k. filter (\<lambda>g. (price_total g, dep_date g, ret_date g, dep_airport g, airline g) = k)
                  ranked =
                (case find (\<lambda>g. (price_total g, dep_date g, ret_date g, dep_airport g,
                                  airline g) = k) (all_flights st) of
                   None \<Rightarrow> [] | Some g \<Rightarrow> [g])) \<and>
         (\<forall>p. filter (\<lambda>g. price_pp g = p) ranked =
                filter (\<lambda>g. price_pp g = p) (remove_duplicates {} [] (all_flights st))) \<and>
         subseq (remove_duplicates {} [] (all_flights st)) (all_flights st)"
proof -
  have k: "key_of = (\<lambda>g. (price_total g, dep_date g, ret_date g, dep_airport g, airline g))"
    by (rule ext) (simp add: key_of_def)
  from run_searches_Inr [OF assms] have "ranked = rank (all_flights st)" by blast
  with rank_properties [of "all_flights st"] show ?thesis unfolding k by simp
qed

text \<open>Per-person prices 220, 220, 150, 300, the second offer sharing the key of the first
  and differing in duration: the output is 150, 220, 300, with the first-seen duration.\<close>

theorem run_searches_ranked_witness:
  "(case run_searches ranking_env example_config [(739924, 739927, 3)] of
      Inr (st, ranked) \<Rightarrow>
        map price_pp (all_flights st) = [220, 220, 150, 300] \<and>
        map duration (all_flights st) = [''10 hr'', ''12 hr'', ''12 hr 30 min'', ''12 hr''] \<and>
        map price_pp ranked = [150, 220, 300] \<and>
        map duration ranked = [''12 hr 30 min'', ''10 hr'', ''12 hr''] \<and>
        sorted (map price_pp ranked) \<and>
        distinct (map (\<lambda>g. (price_total g, dep_date g, ret_date g, dep_airport g, airline g))
                    ranked)
    | Inl err \<Rightarrow> False)"
proof -
  have "(case run_searches ranking_env example_config [(739924, 739927, 3)] of
      Inr (st, ranked) \<Rightarrow>
        map price_pp (all_flights st) = [220, 220, 150, 300] \<and>
        map duration (all_flights st) = [''10 hr'', ''12 hr'', ''12 hr 30 min'', ''12 hr''] \<and>
        map price_pp ranked = [150, 220, 300] \<and>
        map duration ranked = [''12 hr 30 min'', ''10 hr'', ''12 hr'']
    | Inl err \<Rightarrow> False)"
    by code_simp
  then obtain st ranked where
    e: "run_searches ranking_env example_config [(739924, 739927, 3)] = Inr (st, ranked)"
    and v: "map price_pp (all_flights st) = [220, 220, 150, 300]"
      "map duration (all_flights st) = [''10 hr'', ''12 hr'', ''12 hr 30 min'', ''12 hr'']"
      "map price_pp ranked = [150, 220, 300]"
      "map duration ranked = [''12 hr 30 min'', ''10 hr'', ''12 hr'']"
    by (auto split: sum.splits)
  from run_searches_ranked [OF e]
  have "sorted (map price_pp ranked)"
    "distinct (map (\<lambda>g. (price_total g, dep_date g, ret_date g, dep_airport g, airline g))
                ranked)"
    by blast+
  with e v show ?thesis by simp
qed

text \<open>The order is that of the binary64 prices: of two listings at 1,234.56 and 1,234.55
  euros for 2 adults, the second (617.27 per person) ranks before the first (617.28).\<close>

lemma rank_binary64_example:
  "(case process_results example_env example_config
           (Some \<lparr>flights = [\<lparr>sf_airline = ''ITA Airways'', sf_departure = ''10:00'',
                                sf_arrival = ''20:00'', sf_duration = ''10 hr'',
                                sf_stops = ''Nonstop'', sf_price = euro @ ''1,234.56''\<rparr>,
                              \<lparr>sf_airline = ''Emirates'', sf_departure = ''09:00'',
                                sf_arrival = ''21:00'', sf_duration = ''12 hr'',
                                sf_stops = ''1 stop'', sf_price = euro @ ''1,234.55''\<rparr>],
                   raw_html = ''''\<rparr>) ''MXP'' 739924 739927 3 of
      Inr offers \<Rightarrow>
        map airline offers = [''ITA Airways'', ''Emirates''] \<and>
        map price_pp offers = [rd64 (61728 / 100), rd64 (61727 / 100)] \<and>
        map airline (rank offers) = [''Emirates'', ''ITA Airways'']
    | Inl err \<Rightarrow> False)"
  by code_simp

text \<open>
  C3, as the code has it. The searches of a run are the round-trip queries of Phase 1
  followed by one one-way search for each distinct (return date, origin) pair of the
  date pairs and the configured origins, in the order of first insertion, whether or not
  Phase 1 found an offer for the pair; the record of a pair is the first listing of its
  search that passes the stop-count filter, and \<open>None\<close> when there is none or the search
  raised.
\<close>

theorem return_searches_cover_queries:
  assumes "run_searches e c dps = Inr (st, ranked)"
  shows "issued st = outbound_queries c dps @ map (return_query c) (return_keys dps (origins c)) \<and>
         distinct (return_keys dps (origins c)) \<and>
         set (return_keys dps (origins c)) = (\<lambda>dp. fst (snd dp)) ` set dps \<times> set (origins c) \<and>
         (\<forall>i < length (return_keys dps (origins c)).
            map_of (unique_returns st) (return_keys dps (origins c) ! i) =
              Some (case search_flights e (length (outbound_queries c dps) + i)
                           (return_query c (return_keys dps (origins c) ! i)) of
                      Inl err \<Rightarrow> None
                    | Inr r \<Rightarrow> map_option return_detail (find (stops_ok c) (flights r))))"
proof -
  from run_searches_Inr [OF assms] obtain st1 where
    1: "outbound_origins e c dps (origins c) (initial_state dps (origins c)) = Inr st1"
    and u: "unique_returns st =
             unique_returns (return_searches e c (return_keys dps (origins c)) st1)"
    and u1: "unique_returns st1 = collect_returns dps (origins c) []"
    by blast
  from outbound_origins_Inr [OF 1]
  have i1: "issued st1 = outbound_queries c dps"
    by (simp add: initial_state_def outbound_queries_def)
  from return_keys_props [of dps "origins c"]
  have d: "distinct (return_keys dps (origins c))"
    and s: "set (return_keys dps (origins c)) = (\<lambda>dp. fst (snd dp)) ` set dps \<times> set (origins c)"
    and n: "\<forall>k \<in> set (return_keys dps (origins c)). map_of (unique_returns st1) k = Some None"
    by (simp_all add: u1)
  have v: "map_of (unique_returns st) (return_keys dps (origins c) ! i) =
              Some (case search_flights e (length (outbound_queries c dps) + i)
                           (return_query c (return_keys dps (origins c) ! i)) of
                      Inl err \<Rightarrow> None
                    | Inr r \<Rightarrow> map_option return_detail (find (stops_ok c) (flights r)))"
    if "i < length (return_keys dps (origins c))" for i
  proof -
    from return_searches_values [OF d n that, of e c] u i1
    have "map_of (unique_returns st) (return_keys dps (origins c) ! i) =
      Some (search_return_flights e (length (outbound_queries c dps) + i) c
              (return_keys dps (origins c) ! i))"
      by simp
    then show ?thesis
      by (simp add: search_return_flights_def run_search_def split: sum.splits)
  qed
  from run_searches_issued [OF assms] d s v show ?thesis by blast
qed

text \<open>Two origins and one date pair: two return searches, each recording the listing shown.\<close>

theorem return_searches_cover_queries_witness:
  "(case run_searches example_env (example_config\<lparr>origins := [''MXP'', ''LIN'']\<rparr>)
           [(739924, 739927, 3)] of
      Inr (st, ranked) \<Rightarrow>
        issued st =
          [round_trip_query example_config ''MXP'' 739924 739927,
           round_trip_query example_config ''LIN'' 739924 739927,
           return_query example_config (739927, ''MXP''),
           return_query example_config (739927, ''LIN'')] \<and>
        map fst (unique_returns st) = [(739927, ''MXP''), (739927, ''LIN'')] \<and>
        map (ret_airline \<circ> the \<circ> snd) (unique_returns st) = [''ITA Airways'', ''ITA Airways''] \<and>
        distinct (return_keys [(739924, 739927, 3)] [''MXP'', ''LIN''])
    | Inl err \<Rightarrow> False)"
proof -
  have "(case run_searches example_env (example_config\<lparr>origins := [''MXP'', ''LIN'']\<rparr>)
           [(739924, 739927, 3)] of
      Inr (st, ranked) \<Rightarrow>
        issued st =
          [round_trip_query example_config ''MXP'' 739924 739927,
           round_trip_query example_config ''LIN'' 739924 739927,
           return_query example_config (739927, ''MXP''),
           return_query example_config (739927, ''LIN'')] \<and>
        map fst (unique_returns st) = [(739927, ''MXP''), (739927, ''LIN'')] \<and>
        map (ret_airline \<circ> the \<circ> snd) (unique_returns st) = [''ITA Airways'', ''ITA Airways'']
    | Inl err \<Rightarrow> False)"
    by code_simp
  then obtain st ranked where
    e: "run_searches example_env (example_config\<lparr>origins := [''MXP'', ''LIN'']\<rparr>)
           [(739924, 739927, 3)] = Inr (st, ranked)"
    and v: "issued st =
          [round_trip_query example_config ''MXP'' 739924 739927,
           round_trip_query example_config ''LIN'' 739924 739927,
           return_query example_config (739927, ''MXP''),
           return_query example_config (739927, ''LIN'')]"
       "map fst (unique_returns st) = [(739927, ''MXP''), (739927, ''LIN'')]"
       "map (ret_airline \<circ> the \<circ> snd) (unique_returns st) = [''ITA Airways'', ''ITA Airways'']"
    by (auto split: sum.splits)
  from return_searches_cover_queries [OF e]
  have "distinct (return_keys [(739924, 739927, 3)] [''MXP'', ''LIN''])"
    by (simp add: example_config_def)
  with e v show ?thesis by simp
qed

text \<open>
  C3 as stated fails when Phase 1 finds no offer: with every navigation timing out the
  run has no Phase-1 offer, so no (return date, origin) pair is referenced by one, and
  the return search for (739927, MXP) is issued all the same.
\<close>

theorem return_searches_counterexample:
  "run_searches down_env example_config [(739924, 739927, 3)] =
     Inr (\<lparr>all_flights = [], search_count = 1, errors = 1,
           unique_returns = [((739927, ''MXP''), None)],
           issued = [round_trip_query example_config ''MXP'' 739924 739927,
                     return_query example_config (739927, ''MXP'')]\<rparr>, []) \<and>
   referenced_returns [] \<noteq> set [(739927, ''MXP'')]"
proof -
  have "run_searches down_env example_config [(739924, 739927, 3)] =
     Inr (\<lparr>all_flights = [], search_count = 1, errors = 1,
           unique_returns = [((739927, ''MXP''), None)],
           issued = [round_trip_query example_config ''MXP'' 739924 739927,
                     return_query example_config (739927, ''MXP'')]\<rparr>, [])"
    by code_simp
  then show ?thesis by (simp add: referenced_returns_def)
qed

text \<open>
  C4, as the code has it. The Extractor raises on a failed browser launch, a navigation
  timeout, a network-idle timeout after every selector wait has timed out, and a failed
  page evaluation (a selector-wait timeout alone is caught inside it); \<open>run_search\<close>
  turns every exception of a search into \<open>None\<close>. So, with at least one adult, a run
  completes whatever the searches do: every query of both phases is issued, in order,
  \<open>search_count\<close> counts the Phase-1 searches and \<open>errors\<close> those of them that raised.
\<close>

theorem search_failures_absorbed:
  assumes "adults c \<noteq> 0"
  shows "(\<exists>st ranked. run_searches e c dps = Inr (st, ranked) \<and>
            issued st = outbound_queries c dps @ map (return_query c) (return_keys dps (origins c)) \<and>
            search_count st = length (origins c) * length dps \<and>
            errors st = count_raised e 0 (outbound_queries c dps)) \<and>
         (\<forall>n q. run_search e n q = None \<longleftrightarrow> isl (search_flights e n q)) \<and>
         (\<forall>p. isl (fetch_flights p) \<longleftrightarrow>
            \<not> launch_ok p \<or> \<not> goto_ok p \<or>
            (\<not> list_ex (selector_appears p) selectors \<and> \<not> networkidle_ok p) \<or>
            evaluate_flights p = None \<or> evaluate_html p = None)"
proof (intro conjI allI)
  from outbound_origins_total [OF assms] obtain st1 where
    "outbound_origins e c dps (origins c) (initial_state dps (origins c)) = Inr st1" by blast
  then obtain st ranked where r: "run_searches e c dps = Inr (st, ranked)"
    by (simp add: run_searches_def Let_def)
  from run_searches_issued [OF r] r
  show "\<exists>st ranked. run_searches e c dps = Inr (st, ranked) \<and>
            issued st = outbound_queries c dps @ map (return_query c) (return_keys dps (origins c)) \<and>
            search_count st = length (origins c) * length dps \<and>
            errors st = count_raised e 0 (outbound_queries c dps)"
    by blast
next
  fix n q
  show "run_search e n q = None \<longleftrightarrow> isl (search_flights e n q)" by (rule run_search_None)
next
  fix p
  show "isl (fetch_flights p) \<longleftrightarrow>
            \<not> launch_ok p \<or> \<not> goto_ok p \<or>
            (\<not> list_ex (selector_appears p) selectors \<and> \<not> networkidle_ok p) \<or>
            evaluate_flights p = None \<or> evaluate_html p = None"
    by (auto simp: fetch_flights_def Let_def split: option.splits)
qed

text \<open>Every navigation times out: the run completes with one error counted.\<close>

theorem search_failures_absorbed_witness:
  "adults example_config \<noteq> 0 \<and>
   (\<exists>st ranked. run_searches down_env example_config [(739924, 739927, 3)] = Inr (st, ranked) \<and>
      search_count st = 1 \<and> errors st = 1 \<and>
      issued st = [round_trip_query example_config ''MXP'' 739924 739927,
                   return_query example_config (739927, ''MXP'')]) \<and>
   run_search down_env 0 (round_trip_query example_config ''MXP'' 739924 739927) = None"
proof -
  have a: "adults example_config \<noteq> 0" by (simp add: example_config_def)
  have q: "outbound_queries example_config [(739924, 739927, 3)] =
      [round_trip_query example_config ''MXP'' 739924 739927]"
    by (simp add: outbound_queries_def example_config_def)
  have k: "return_keys [(739924, 739927, 3)] (origins example_config) = [(739927, ''MXP'')]"
    by (simp add: return_keys_def example_config_def)
  have r: "isl (search_flights down_env 0 (round_trip_query example_config ''MXP'' 739924 739927))"
    by (simp add: search_flights_def down_env_def fetch_flights_def example_page_def)
  from search_failures_absorbed [OF a, of down_env "[(739924, 739927, 3)]"]
  obtain st ranked where
    e: "run_searches down_env example_config [(739924, 739927, 3)] = Inr (st, ranked)"
    and i: "issued st = outbound_queries example_config [(739924, 739927, 3)] @
        map (return_query example_config) (return_keys [(739924, 739927, 3)] (origins example_config))"
    and n: "search_count st = length (origins example_config) * length [(739924 :: int, 739927 :: int, 3 :: int)]"
    and c: "errors st = count_raised down_env 0 (outbound_queries example_config [(739924, 739927, 3)])"
    and s: "\<forall>n q. run_search down_env n q = None \<longleftrightarrow> isl (search_flights down_env n q)"
    by blast
  from i q k have "issued st = [round_trip_query example_config ''MXP'' 739924 739927,
                   return_query example_config (739927, ''MXP'')]" by simp
  moreover from n have "search_count st = 1" by (simp add: example_config_def)
  moreover from c q r have "errors st = 1" by simp
  moreover from s r
  have "run_search down_env 0 (round_trip_query example_config ''MXP'' 739924 739927) = None"
    by simp
  ultimately show ?thesis using a e by blast
qed

text \<open>
  C4 as stated fails in its first half: on a navigation timeout and on a failed page
  evaluation the Extractor raises; it does not return an empty listing result.
\<close>

theorem fetch_flights_raises_counterexample:
  "fetch_flights (example_page\<lparr>goto_ok := False\<rparr>) = Inl TimeoutError \<and>
   fetch_flights (example_page\<lparr>evaluate_flights := None\<rparr>) = Inl PlaywrightError \<and>
   fetch_flights (example_page\<lparr>goto_ok := False\<rparr>) \<noteq> Inr \<lparr>flights = [], raw_html = ''''\<rparr>"
  by (simp add: fetch_flights_def example_page_def selectors_def)

lemma key_of_merge_return: "key_of (merge_return d f) = key_of f"
  by (simp add: merge_return_def key_of_def split: option.splits)

text \<open>
  C9. The merge keeps every Phase-1 offer, in order. An offer \<open>f\<close> whose
  (return date, origin) key has no return-leg record gets \<open>ret_airline\<close> equal to its own
  airline, its own \<open>stops\<close> and \<open>stops_detail\<close> as \<open>ret_stops\<close> and \<open>ret_stops_detail\<close>,
  \<open>ret_duration\<close> "N/D" (not available), and keeps its other fields. It is in the merged
  list, its key is in the final output, and it is itself in the final output exactly
  when it is the first merged offer with its key: only the removal of duplicates can
  take it out, never the missing record.
\<close>

theorem merge_fallback:
  assumes run: "run_searches e c dps = Inr (st, ranked)"
    and p1: "outbound_origins e c dps (origins c) (initial_state dps (origins c)) = Inr st1"
    and f: "f \<in> set (all_flights st1)"
    and norec: "\<forall>info. map_of (unique_returns st) (ret_date f, origin_code f) \<noteq> Some (Some info)"
  shows "all_flights st = map (merge_return (unique_returns st)) (all_flights st1) \<and>
         merge_return (unique_returns st) f =
           f\<lparr>ret_info := Some \<lparr>ret_airline = airline f, ret_departure = '''', ret_arrival = '''',
                                ret_duration = ''N/D'', ret_stops = stops f,
                                ret_stops_detail = stops_detail f\<rparr>\<rparr> \<and>
         merge_return (unique_returns st) f \<in> set (all_flights st) \<and>
         (\<exists>g \<in> set ranked. key_of g = key_of f) \<and>
         (merge_return (unique_returns st) f \<in> set ranked \<longleftrightarrow>
            find (\<lambda>g. key_of g = key_of f) (all_flights st) =
              Some (merge_return (unique_returns st) f))"
proof -
  let ?m = "merge_return (unique_returns st) f"
  from run_searches_Inr [OF run] p1
  have a: "all_flights st = map (merge_return (unique_returns st)) (all_flights st1)"
    and r: "ranked = rank (all_flights st)"
    by (auto simp: return_searches_frame)
  from norec have m: "?m = f\<lparr>ret_info := Some \<lparr>ret_airline = airline f, ret_departure = '''',
      ret_arrival = '''', ret_duration = ''N/D'', ret_stops = stops f,
      ret_stops_detail = stops_detail f\<rparr>\<rparr>"
    by (auto simp: merge_return_def split: option.splits)
  from a f have mem: "?m \<in> set (all_flights st)" by simp
  have k: "key_of ?m = key_of f" by (rule key_of_merge_return)
  from rank_properties [of "all_flights st"] r
  have flt: "filter (\<lambda>g. key_of g = key_of f) ranked =
      (case find (\<lambda>g. key_of g = key_of f) (all_flights st) of None \<Rightarrow> [] | Some g \<Rightarrow> [g])"
    by blast
  from mem k obtain g where g: "find (\<lambda>g. key_of g = key_of f) (all_flights st) = Some g"
    by (cases "find (\<lambda>g. key_of g = key_of f) (all_flights st)") (auto simp: find_None_iff)
  with flt have fg: "filter (\<lambda>g. key_of g = key_of f) ranked = [g]" by simp
  then have "g \<in> set (filter (\<lambda>g. key_of g = key_of f) ranked)" by simp
  then have ex: "\<exists>g \<in> set ranked. key_of g = key_of f" by auto
  have "?m \<in> set ranked \<longleftrightarrow> ?m \<in> set (filter (\<lambda>g. key_of g = key_of f) ranked)"
    using k by simp
  also have "\<dots> \<longleftrightarrow> ?m = g" using fg by simp
  also have "\<dots> \<longleftrightarrow> find (\<lambda>g. key_of g = key_of f) (all_flights st) = Some ?m"
    using g by auto
  finally have iff: "?m \<in> set ranked \<longleftrightarrow>
      find (\<lambda>g. key_of g = key_of f) (all_flights st) = Some ?m" .
  from a m mem ex iff show ?thesis by blast
qed

text \<open>The outbound search succeeds and the return search times out: the offer is in the
  final output with the fallback fields.\<close>

theorem merge_fallback_witness:
  "(case run_searches outbound_only_env example_config [(739924, 739927, 3)] of
      Inr (st, ranked) \<Rightarrow>
        unique_returns st = [((739927, ''MXP''), None)] \<and>
        map airline ranked = [''ITA Airways''] \<and>
        map ret_info ranked =
          [Some \<lparr>ret_airline = ''ITA Airways'', ret_departure = '''', ret_arrival = '''',
                 ret_duration = ''N/D'', ret_stops = 0, ret_stops_detail = ''Nonstop''\<rparr>] \<and>
        ranked = all_flights st
    | Inl err \<Rightarrow> False)"
proof -
  have "(case outbound_origins outbound_only_env example_config [(739924, 739927, 3)]
               (origins example_config)
               (initial_state [(739924, 739927, 3)] (origins example_config)) of
          Inr st1 \<Rightarrow>
            map ret_date (all_flights st1) = [739927] \<and>
            map origin_code (all_flights st1) = [''MXP''] \<and>
            map airline (all_flights st1) = [''ITA Airways''] \<and>
            map stops (all_flights st1) = [0] \<and>
            map stops_detail (all_flights st1) = [''Nonstop'']
        | Inl err \<Rightarrow> False)"
    by code_simp
  then obtain st1 where
    p1: "outbound_origins outbound_only_env example_config [(739924, 739927, 3)]
               (origins example_config)
               (initial_state [(739924, 739927, 3)] (origins example_config)) = Inr st1"
    and v1: "map ret_date (all_flights st1) = [739927]"
      "map origin_code (all_flights st1) = [''MXP'']"
      "map airline (all_flights st1) = [''ITA Airways'']"
      "map stops (all_flights st1) = [0]"
      "map stops_detail (all_flights st1) = [''Nonstop'']"
    by (auto split: sum.splits)
  from v1 obtain f where fs: "all_flights st1 = [f]" and
    f: "ret_date f = 739927" "origin_code f = ''MXP''" "airline f = ''ITA Airways''"
      "stops f = 0" "stops_detail f = ''Nonstop''"
    by (cases "all_flights st1") auto
  have "(case run_searches outbound_only_env example_config [(739924, 739927, 3)] of
      Inr (st, ranked) \<Rightarrow> unique_returns st = [((739927, ''MXP''), None)] \<and> length ranked = 1
    | Inl err \<Rightarrow> False)"
    by code_simp
  then obtain st ranked where
    e: "run_searches outbound_only_env example_config [(739924, 739927, 3)] = Inr (st, ranked)"
    and u: "unique_returns st = [((739927, ''MXP''), None)]"
    and l: "length ranked = 1"
    by (auto split: sum.splits)
  from fs have mem: "f \<in> set (all_flights st1)" by simp
  from u f have norec:
    "\<forall>info. map_of (unique_returns st) (ret_date f, origin_code f) \<noteq> Some (Some info)"
    by simp
  from merge_fallback [OF e p1 mem norec]
  have c: "all_flights st = map (merge_return (unique_returns st)) (all_flights st1)"
    and m0: "merge_return (unique_returns st) f =
      f\<lparr>ret_info := Some \<lparr>ret_airline = airline f, ret_departure = '''', ret_arrival = '''',
         ret_duration = ''N/D'', ret_stops = stops f, ret_stops_detail = stops_detail f\<rparr>\<rparr>"
    and iff: "merge_return (unique_returns st) f \<in> set ranked \<longleftrightarrow>
            find (\<lambda>g. key_of g = key_of f) (all_flights st) =
              Some (merge_return (unique_returns st) f)"
    by blast+
  from m0 f have m: "merge_return (unique_returns st) f = f\<lparr>ret_info := Some \<lparr>ret_airline = ''ITA Airways'',
      ret_departure = '''', ret_arrival = '''', ret_duration = ''N/D'', ret_stops = 0,
      ret_stops_detail = ''Nonstop''\<rparr>\<rparr>"
    by simp
  from c fs m have a: "all_flights st = [f\<lparr>ret_info := Some \<lparr>ret_airline = ''ITA Airways'',
      ret_departure = '''', ret_arrival = '''', ret_duration = ''N/D'', ret_stops = 0,
      ret_stops_detail = ''Nonstop''\<rparr>\<rparr>]"
    by simp
  from iff a m have "f\<lparr>ret_info := Some \<lparr>ret_airline = ''ITA Airways'',
      ret_departure = '''', ret_arrival = '''', ret_duration = ''N/D'', ret_stops = 0,
      ret_stops_detail = ''Nonstop''\<rparr>\<rparr> \<in> set ranked"
    by (simp add: key_of_def)
  with l have "ranked = [f\<lparr>ret_info := Some \<lparr>ret_airline = ''ITA Airways'',
      ret_departure = '''', ret_arrival = '''', ret_duration = ''N/D'', ret_stops = 0,
      ret_stops_detail = ''Nonstop''\<rparr>\<rparr>]"
    by (cases ranked) auto
  with e u a f show ?thesis by simp
qed


end
